theory Spec2Isabelle
  imports Complex_Main
begin

section \<open>The spectrogram worker of the bioacoustics annotator\<close>

text \<open>
  This theory embeds the Web Worker of \<^verbatim>\<open>src/renderer/spectrogram/SpectrogramPlayer.tsx\<close>
  (the part after the React component): the sample store \<^verbatim>\<open>pcmStore\<close>, the tile cache
  \<^verbatim>\<open>melTileCache\<close>, the window assembler (\<^verbatim>\<open>framesForWindow\<close>, \<^verbatim>\<open>analyzeTiles\<close>,
  \<^verbatim>\<open>computeSegmentAndPopulateTiles\<close>, \<^verbatim>\<open>assembleWindowMel\<close>), the display mapping and the
  rasterize loop of \<^verbatim>\<open>self.onmessage\<close>.

  Conventions of the embedding.
  \<^item> A JavaScript number that the code only uses as a count or an index (\<^verbatim>\<open>n_fft\<close>,
    \<^verbatim>\<open>win_length\<close>, \<^verbatim>\<open>hop_length\<close>, \<^verbatim>\<open>n_mels\<close>, frame and sample indices) is an \<open>int\<close>;
    \<^verbatim>\<open>sampleRate\<close>, \<^verbatim>\<open>t0\<close>, \<^verbatim>\<open>windowDuration\<close>, \<^verbatim>\<open>f_min\<close>, \<^verbatim>\<open>f_max\<close>, \<^verbatim>\<open>top_db\<close> are
    finite \<open>real\<close>s (the doubles are among them). Fractional sizes and non-finite window
    parameters are excluded by these types.
  \<^item> Sample values, spectral values and the display parameters are \<open>jsnum\<close>: a real, or one
    of \<^verbatim>\<open>Infinity\<close>, \<^verbatim>\<open>-Infinity\<close>, \<^verbatim>\<open>NaN\<close>. Arithmetic on them follows IEEE 754 binary64:
    the exact result is rounded to the nearest double, a tie going to the even significand,
    with gradual underflow and with overflow to an infinity (\<open>fl\<close>, \<open>fl64\<close>). There is no
    negative zero: the code never divides by a computed zero whose sign matters.
    \<^verbatim>\<open>undefined\<close>, which the code only ever feeds to arithmetic, is \<open>NaN\<close>.
  \<^item> A thrown exception is a value \<open>Inl failure\<close>; the state reached when it is thrown is
    returned with it, since writes made before a throw stay in the two maps.
  \<^item> \<^verbatim>\<open>mel_spectrogram_db\<close> is imported from the WASM package, which is not part of the
    sources; it is a parameter \<open>prim\<close> of every function that calls it.
\<close>

subsection \<open>Numbers\<close>

datatype jsnum = Fin real | PInf | NInf | NaN

fun isFinite :: "jsnum \<Rightarrow> bool" where
  "isFinite (Fin r) = True"
| "isFinite _ = False"

fun fin_val :: "jsnum \<Rightarrow> real" where
  "fin_val (Fin r) = r"
| "fin_val _ = 0"

text \<open>An infinity whose sign is the sign of \<open>s\<close>; \<open>NaN\<close> when \<open>s = 0\<close>.\<close>

definition inf_signed :: "real \<Rightarrow> jsnum" where
  "inf_signed s = (if 0 < s then PInf else if s < 0 then NInf else NaN)"

text \<open>
  Rounding to binary64. \<open>rne\<close> rounds a real to the nearest integer, a tie going to the
  even one. \<open>ulp_exp x\<close> is the exponent of the unit in the last place of the doubles
  around \<open>x\<close>: 52 below the exponent of \<open>x\<close>, and \<open>-1074\<close> in the subnormal range.
  \<open>fl x\<close> is \<open>x\<close> rounded to a multiple of that unit, without overflow; \<open>fl64 x\<close> is the
  result of an arithmetic operation whose exact value is \<open>x\<close>: an infinity when the
  rounded value reaches \<open>2 ^ 1024\<close>.
\<close>

definition rne :: "real \<Rightarrow> int" where
  "rne r = (if r - of_int \<lfloor>r\<rfloor> < 1 / 2 then \<lfloor>r\<rfloor>
            else if 1 / 2 < r - of_int \<lfloor>r\<rfloor> then \<lfloor>r\<rfloor> + 1
            else if even \<lfloor>r\<rfloor> then \<lfloor>r\<rfloor> else \<lfloor>r\<rfloor> + 1)"

definition ulp_exp :: "real \<Rightarrow> int" where
  "ulp_exp x = max \<lfloor>log 2 \<bar>x\<bar>\<rfloor> (- 1022) - 52"

definition fl :: "real \<Rightarrow> real" where
  "fl x = (if x = 0 then 0
           else of_int (rne (x / 2 powr of_int (ulp_exp x))) * 2 powr of_int (ulp_exp x))"

definition fl64 :: "real \<Rightarrow> jsnum" where
  "fl64 x = (if 2 ^ 1024 \<le> \<bar>fl x\<bar> then inf_signed x else Fin (fl x))"

fun js_neg :: "jsnum \<Rightarrow> jsnum" where
  "js_neg (Fin r) = Fin (- r)"
| "js_neg PInf = NInf"
| "js_neg NInf = PInf"
| "js_neg NaN = NaN"

fun js_add :: "jsnum \<Rightarrow> jsnum \<Rightarrow> jsnum" where
  "js_add (Fin a) (Fin b) = fl64 (a + b)"
| "js_add NaN _ = NaN"
| "js_add _ NaN = NaN"
| "js_add PInf NInf = NaN"
| "js_add NInf PInf = NaN"
| "js_add PInf _ = PInf"
| "js_add _ PInf = PInf"
| "js_add NInf _ = NInf"
| "js_add _ NInf = NInf"

definition js_sub :: "jsnum \<Rightarrow> jsnum \<Rightarrow> jsnum" where
  "js_sub a b = js_add a (js_neg b)"

fun js_mul :: "jsnum \<Rightarrow> jsnum \<Rightarrow> jsnum" where
  "js_mul (Fin a) (Fin b) = fl64 (a * b)"
| "js_mul NaN _ = NaN"
| "js_mul _ NaN = NaN"
| "js_mul PInf (Fin b) = inf_signed b"
| "js_mul (Fin a) PInf = inf_signed a"
| "js_mul NInf (Fin b) = inf_signed (- b)"
| "js_mul (Fin a) NInf = inf_signed (- a)"
| "js_mul PInf PInf = PInf"
| "js_mul NInf NInf = PInf"
| "js_mul PInf NInf = NInf"
| "js_mul NInf PInf = NInf"

fun js_div :: "jsnum \<Rightarrow> jsnum \<Rightarrow> jsnum" where
  "js_div (Fin a) (Fin b) = (if b = 0 then inf_signed a else fl64 (a / b))"
| "js_div NaN _ = NaN"
| "js_div _ NaN = NaN"
| "js_div (Fin a) _ = Fin 0"
| "js_div PInf (Fin b) = (if 0 \<le> b then PInf else NInf)"
| "js_div NInf (Fin b) = (if 0 \<le> b then NInf else PInf)"
| "js_div _ _ = NaN"

text \<open>\<^verbatim>\<open>a < b\<close> and \<^verbatim>\<open>a > b\<close>: false as soon as one side is \<open>NaN\<close>.\<close>

fun js_lt :: "jsnum \<Rightarrow> jsnum \<Rightarrow> bool" where
  "js_lt (Fin a) (Fin b) = (a < b)"
| "js_lt NaN _ = False"
| "js_lt _ NaN = False"
| "js_lt PInf _ = False"
| "js_lt _ NInf = False"
| "js_lt _ PInf = True"
| "js_lt NInf _ = True"

definition js_gt :: "jsnum \<Rightarrow> jsnum \<Rightarrow> bool" where
  "js_gt a b = js_lt b a"

text \<open>\<^verbatim>\<open>Math.min\<close> and \<^verbatim>\<open>Math.max\<close> of two numbers: \<open>NaN\<close> as soon as one argument is.\<close>

definition js_min :: "jsnum \<Rightarrow> jsnum \<Rightarrow> jsnum" where
  "js_min a b = (if a = NaN \<or> b = NaN then NaN else if js_lt b a then b else a)"

definition js_max :: "jsnum \<Rightarrow> jsnum \<Rightarrow> jsnum" where
  "js_max a b = (if a = NaN \<or> b = NaN then NaN else if js_lt a b then b else a)"

fun js_floor :: "jsnum \<Rightarrow> jsnum" where
  "js_floor (Fin r) = Fin (of_int \<lfloor>r\<rfloor>)"
| "js_floor x = x"

text \<open>
  \<^verbatim>\<open>Math.pow\<close>. An exponent \<open>NaN\<close> gives \<open>NaN\<close>, an exponent zero gives 1 whatever the base;
  a base of modulus 1 with an infinite exponent gives \<open>NaN\<close>; zero to a negative power is
  \<^verbatim>\<open>Infinity\<close>; a negative base needs an integral exponent. ECMAScript leaves the last bit
  of a power to the implementation; the model takes the correctly rounded value.
\<close>

definition abs_cmp_one :: "jsnum \<Rightarrow> jsnum \<Rightarrow> jsnum \<Rightarrow> jsnum \<Rightarrow> jsnum" where
  "abs_cmp_one x r_gt r_eq r_lt =
     (case x of
        Fin a \<Rightarrow> (if 1 < \<bar>a\<bar> then r_gt else if \<bar>a\<bar> = 1 then r_eq else r_lt)
      | NaN \<Rightarrow> NaN
      | _ \<Rightarrow> r_gt)"

definition is_odd_integer :: "real \<Rightarrow> bool" where
  "is_odd_integer b = (b = of_int \<lfloor>b\<rfloor> \<and> odd \<lfloor>b\<rfloor>)"

fun js_pow :: "jsnum \<Rightarrow> jsnum \<Rightarrow> jsnum" where
  "js_pow x NaN = NaN"
| "js_pow x PInf = abs_cmp_one x PInf NaN (Fin 0)"
| "js_pow x NInf = abs_cmp_one x (Fin 0) NaN PInf"
| "js_pow x (Fin b) =
     (if b = 0 then Fin 1
      else case x of
        NaN \<Rightarrow> NaN
      | PInf \<Rightarrow> (if 0 < b then PInf else Fin 0)
      | NInf \<Rightarrow> (if 0 < b then (if is_odd_integer b then NInf else PInf) else Fin 0)
      | Fin a \<Rightarrow>
          (if a = 0 then (if 0 < b then Fin 0 else PInf)
           else if 0 < a then fl64 (a powr b)
           else if b = of_int \<lfloor>b\<rfloor> then fl64 (a powi \<lfloor>b\<rfloor>)
           else NaN))"

text \<open>
  \<^verbatim>\<open>x | 0\<close>: the conversion \<^verbatim>\<open>ToInt32\<close>. A non-finite number becomes 0; a finite one is
  truncated towards zero and wrapped into the signed 32-bit range.
\<close>

definition trunc :: "real \<Rightarrow> int" where
  "trunc r = (if 0 \<le> r then \<lfloor>r\<rfloor> else \<lceil>r\<rceil>)"

definition toInt32 :: "jsnum \<Rightarrow> int" where
  "toInt32 x =
     (case x of
        Fin r \<Rightarrow> (trunc r + 2147483648) mod 4294967296 - 2147483648
      | _ \<Rightarrow> 0)"

text \<open>\<^verbatim>\<open>Math.round\<close> on a finite number: the nearest integer, a tie going up.\<close>

definition js_round :: "real \<Rightarrow> int" where
  "js_round r = \<lfloor>r + 1 / 2\<rfloor>"

subsection \<open>Arrays\<close>

text \<open>
  \<^verbatim>\<open>Array.prototype.slice(begin, end)\<close> and \<^verbatim>\<open>TypedArray.prototype.subarray(begin, end)\<close>
  share their index arithmetic: a negative index counts from the end, and both indices
  are clamped to the array.
\<close>

definition rel_index :: "int \<Rightarrow> int \<Rightarrow> nat" where
  "rel_index len i = nat (if i < 0 then max (len + i) 0 else min i len)"

definition js_slice :: "'a list \<Rightarrow> int \<Rightarrow> int \<Rightarrow> 'a list" where
  "js_slice xs b e =
     (let len = int (length xs); k = rel_index len b; final = rel_index len e
      in take (final - k) (drop k xs))"

text \<open>Reading \<^verbatim>\<open>xs[i]\<close> for a computed index: \<^verbatim>\<open>undefined\<close> outside the array.\<close>

definition js_index :: "real list \<Rightarrow> jsnum \<Rightarrow> jsnum" where
  "js_index xs i =
     (case i of
        Fin r \<Rightarrow> (if r = of_int \<lfloor>r\<rfloor> \<and> 0 \<le> r \<and> r < real (length xs)
                  then Fin (xs ! nat \<lfloor>r\<rfloor>) else NaN)
      | _ \<Rightarrow> NaN)"

definition mel_at :: "jsnum list \<Rightarrow> int \<Rightarrow> jsnum" where
  "mel_at mel i = (if 0 \<le> i \<and> i < int (length mel) then mel ! nat i else NaN)"

subsection \<open>Messages, parameters and the worker's state\<close>

datatype failure =
    NotLoaded
  | PrimitiveFailure string
  | RangeError
  | TypeError
  | IndexSizeError

text \<open>
  \<open>NotLoaded\<close> is the \<^verbatim>\<open>Error('PCM not loaded for fileId')\<close> of
  \<^verbatim>\<open>computeSegmentAndPopulateTiles\<close>; \<open>PrimitiveFailure m\<close> is an exception with message
  \<open>m\<close> thrown by \<^verbatim>\<open>mel_spectrogram_db\<close>; the other three are thrown by the platform
  (a typed array of negative length or a \<^verbatim>\<open>set\<close> past its end; a property read on
  \<^verbatim>\<open>undefined\<close> or a canvas of negative size; \<^verbatim>\<open>createImageData\<close> with a zero side).
\<close>

record params =
  sampleRate :: real
  n_fft :: int
  win_length :: int
  hop_length :: int
  f_min :: real
  f_max :: real
  n_mels :: int
  top_db :: real
  t0 :: real
  windowDuration :: real
  dynamicGain :: bool
  autoGamma :: bool
  gammaValue :: jsnum
  gainPercentile :: jsnum
  brightness :: jsnum
  contrast :: jsnum
  colormap :: string

record tile =
  startFrame :: int
  frames :: int

text \<open>
  The key of a tile. The source builds the string
  \<^verbatim>\<open>fileId:startFrame:tileFrames:sampleRate:n_fft:win_length:hop_length:n_mels:f_min:f_max:top_db\<close>;
  the ten numbers contain no colon, so the string determines the eleven components and
  the model keeps them as a tuple, in the source's order.
\<close>

type_synonym tile_key = "string \<times> int \<times> int \<times> real \<times> int \<times> int \<times> int \<times> int \<times> real \<times> real \<times> real"

definition tileKey :: "string \<Rightarrow> int \<Rightarrow> int \<Rightarrow> params \<Rightarrow> tile_key" where
  "tileKey fileId start tileFrames p =
     (fileId, start, tileFrames, sampleRate p, n_fft p, win_length p, hop_length p,
      n_mels p, f_min p, f_max p, top_db p)"

text \<open>
  The worker's globals. \<open>primCalls\<close> is not in the source: it counts the invocations of
  \<^verbatim>\<open>mel_spectrogram_db\<close>, so that claims about their number can be stated.
\<close>

record worker =
  wasmReady :: bool
  pcmStore :: "string \<rightharpoonup> (real \<times> jsnum list)"
  melTileCache :: "tile_key \<rightharpoonup> jsnum list"
  primCalls :: nat

definition init_worker :: worker where
  "init_worker = \<lparr>wasmReady = False, pcmStore = Map.empty, melTileCache = Map.empty, primCalls = 0\<rparr>"

definition TILE_FRAMES :: int where
  "TILE_FRAMES = 1024"

text \<open>
  \<^verbatim>\<open>mel_spectrogram_db(sampleRate, samples, n_fft, win_length, hop_length, f_min, f_max,
  n_mels, top_db)\<close>: the rows it returns, or the message of the exception it throws.
\<close>

type_synonym primitive =
  "real \<Rightarrow> jsnum list \<Rightarrow> int \<Rightarrow> int \<Rightarrow> int \<Rightarrow> real \<Rightarrow> real \<Rightarrow> int \<Rightarrow> real \<Rightarrow> string + jsnum list list"

subsection \<open>The window assembler\<close>

text \<open>
  \<^verbatim>\<open>framesForWindow\<close>. The quotient and the two products are doubles, rounded as the source
  rounds them. From the two \<^verbatim>\<open>Math.floor\<close> on, frame indices are integers: doubles add and
  subtract integers exactly below \<open>2 ^ 53\<close>, and the model takes the arithmetic on frame
  indices exact throughout. With \<^verbatim>\<open>hop_length = 0\<close> the source divides by zero and the frame
  indices are \<^verbatim>\<open>Infinity\<close> or \<^verbatim>\<open>NaN\<close>; the model returns \<open>None\<close> there and does not follow
  the worker further.
\<close>

definition framesForWindow :: "params \<Rightarrow> (int \<times> int) option" where
  "framesForWindow p =
     (if hop_length p = 0 then None
      else
        let framesPerSecond = fl (sampleRate p / real_of_int (hop_length p));
            F0 = \<lfloor>fl (t0 p * framesPerSecond)\<rfloor>;
            totalFrames = max 1 \<lfloor>fl (windowDuration p * framesPerSecond)\<rfloor>;
            F1 = F0 + totalFrames - 1
        in Some (F0, F1))"

text \<open>The first loop of \<^verbatim>\<open>analyzeTiles\<close>: the needed tiles, from \<open>cursor\<close> up to \<open>F1\<close>.\<close>

function neededTiles :: "int \<Rightarrow> int \<Rightarrow> tile list" where
  "neededTiles cursor F1 =
     (if cursor \<le> F1
      then \<lparr>startFrame = cursor, frames = min TILE_FRAMES (F1 - cursor + 1)\<rparr>
           # neededTiles (cursor + min TILE_FRAMES (F1 - cursor + 1)) F1
      else [])"
  by pat_completeness auto
termination
  by (relation "measure (\<lambda>(cursor, F1). nat (F1 - cursor + 1))") (auto simp: TILE_FRAMES_def)

declare neededTiles.simps [simp del]

text \<open>
  The second loop of \<^verbatim>\<open>analyzeTiles\<close>, with its three variables \<^verbatim>\<open>missing\<close>, \<^verbatim>\<open>segStart\<close>,
  \<^verbatim>\<open>segEnd\<close>; \<open>-1\<close> in \<^verbatim>\<open>segStart\<close> means that no segment is open. The first equation is
  the code after the loop.
\<close>

fun scanMissing :: "(tile \<Rightarrow> bool) \<Rightarrow> tile list \<Rightarrow> tile list \<Rightarrow> int \<Rightarrow> int \<Rightarrow> tile list" where
  "scanMissing isCached [] missing segStart segEnd =
     (if segStart \<noteq> - 1
      then missing @ [\<lparr>startFrame = segStart, frames = segEnd - segStart + 1\<rparr>]
      else missing)"
| "scanMissing isCached (t # rest) missing segStart segEnd =
     (if isCached t then
        (if segStart \<noteq> - 1
         then scanMissing isCached rest
                (missing @ [\<lparr>startFrame = segStart, frames = segEnd - segStart + 1\<rparr>]) (- 1) (- 1)
         else scanMissing isCached rest missing segStart segEnd)
      else if segStart = - 1 then
        scanMissing isCached rest missing (startFrame t) (startFrame t + frames t - 1)
      else if startFrame t = segEnd + 1 then
        scanMissing isCached rest missing segStart (startFrame t + frames t - 1)
      else
        scanMissing isCached rest
          (missing @ [\<lparr>startFrame = segStart, frames = segEnd - segStart + 1\<rparr>])
          (startFrame t) (startFrame t + frames t - 1))"

definition isCached :: "(tile_key \<rightharpoonup> jsnum list) \<Rightarrow> string \<Rightarrow> params \<Rightarrow> tile \<Rightarrow> bool" where
  "isCached cache fileId p t = (cache (tileKey fileId (startFrame t) (frames t) p) \<noteq> None)"

definition analyzeTiles ::
  "(tile_key \<rightharpoonup> jsnum list) \<Rightarrow> string \<Rightarrow> int \<Rightarrow> int \<Rightarrow> params \<Rightarrow> tile list \<times> tile list" where
  "analyzeTiles cache fileId F0 F1 p =
     (let needed = neededTiles F0 F1
      in (needed, scanMissing (isCached cache fileId p) needed [] (- 1) (- 1)))"

text \<open>
  \<^verbatim>\<open>out.set(src, offset)\<close> on a typed array throws a \<^verbatim>\<open>RangeError\<close> when the source does
  not fit; \<^verbatim>\<open>new Float32Array(n)\<close> throws one when \<open>n\<close> is negative and is filled with
  zeros otherwise.
\<close>

definition typed_set :: "'a list \<Rightarrow> 'a list \<Rightarrow> int \<Rightarrow> failure + 'a list" where
  "typed_set out src off =
     (if off < 0 \<or> int (length out) < off + int (length src) then Inl RangeError
      else Inr (take (nat off) out @ src @ drop (nat off + length src) out))"

fun flattenLoop :: "jsnum list list \<Rightarrow> int \<Rightarrow> int \<Rightarrow> jsnum list \<Rightarrow> failure + jsnum list" where
  "flattenLoop [] n t out = Inr out"
| "flattenLoop (row # rows) n t out =
     (case typed_set out row (t * n) of
        Inl e \<Rightarrow> Inl e
      | Inr out' \<Rightarrow> flattenLoop rows n (t + 1) out')"

definition flattenMel :: "jsnum list list \<Rightarrow> int \<Rightarrow> failure + jsnum list" where
  "flattenMel melFrames n =
     (if int (length melFrames) * n < 0 then Inl RangeError
      else flattenLoop melFrames n 0 (replicate (nat (int (length melFrames) * n)) (Fin 0)))"

text \<open>
  \<^verbatim>\<open>concatTiles\<close>, applied to what \<^verbatim>\<open>melTileCache.get\<close> returned for each needed tile:
  reading \<^verbatim>\<open>length\<close> of an absent tile throws a \<^verbatim>\<open>TypeError\<close>; the tiles present are
  copied one after the other.
\<close>

definition concatTiles :: "jsnum list option list \<Rightarrow> failure + jsnum list" where
  "concatTiles tiles = (if None \<in> set tiles then Inl TypeError else Inr (concat (map the tiles)))"

text \<open>The tile loop at the end of \<^verbatim>\<open>computeSegmentAndPopulateTiles\<close>.\<close>

function populateTiles ::
  "string \<Rightarrow> tile \<Rightarrow> params \<Rightarrow> jsnum list list \<Rightarrow> int \<Rightarrow> (tile_key \<rightharpoonup> jsnum list)
   \<Rightarrow> (failure + unit) \<times> (tile_key \<rightharpoonup> jsnum list)" where
  "populateTiles fileId seg p usable cursor cache =
     (if cursor < frames seg then
        (case flattenMel
                (js_slice usable cursor (cursor + min TILE_FRAMES (frames seg - cursor)))
                (n_mels p) of
           Inl e \<Rightarrow> (Inl e, cache)
         | Inr flat \<Rightarrow>
             populateTiles fileId seg p usable (cursor + min TILE_FRAMES (frames seg - cursor))
               (cache(tileKey fileId (startFrame seg + cursor)
                        (min TILE_FRAMES (frames seg - cursor)) p \<mapsto> flat)))
      else (Inr (), cache))"
  by pat_completeness auto
termination
  by (relation "measure (\<lambda>(fileId, seg, p, usable, cursor, cache). nat (frames seg - cursor))")
     (auto simp: TILE_FRAMES_def)

declare populateTiles.simps [simp del]

text \<open>
  \<^verbatim>\<open>computeSegmentAndPopulateTiles\<close>. The \<^verbatim>\<open>console.log\<close> lines are left out: on rows that
  are typed arrays they throw nothing and change nothing. The function is only reached
  with \<^verbatim>\<open>hop_length\<close> other than 0, where \<^verbatim>\<open>Math.floor(pad / hop)\<close> is \<open>pad div hop\<close>.
\<close>

definition computeSegmentAndPopulateTiles ::
  "primitive \<Rightarrow> string \<Rightarrow> tile \<Rightarrow> params \<Rightarrow> worker \<Rightarrow> (failure + unit) \<times> worker" where
  "computeSegmentAndPopulateTiles prim fileId seg p st =
     (case pcmStore st fileId of
        None \<Rightarrow> (Inl NotLoaded, st)
      | Some pcmEntry \<Rightarrow>
          let hop = hop_length p;
              pad = n_fft p;
              startSample = max 0 (startFrame seg * hop - pad);
              endSample = min (int (length (snd pcmEntry)))
                              ((startFrame seg + frames seg) * hop + pad);
              slice = js_slice (snd pcmEntry) startSample endSample;
              st1 = st\<lparr>primCalls := primCalls st + 1\<rparr>
          in case prim (sampleRate p) slice (n_fft p) (win_length p) (hop_length p)
                       (f_min p) (f_max p) (n_mels p) (top_db p) of
               Inl m \<Rightarrow> (Inl (PrimitiveFailure m), st1)
             | Inr melFrames \<Rightarrow>
                 let framesPerPad = pad div hop;
                     usable = js_slice melFrames framesPerPad (framesPerPad + frames seg);
                     r = populateTiles fileId seg p usable 0 (melTileCache st1)
                 in (fst r, st1\<lparr>melTileCache := snd r\<rparr>))"

text \<open>The loop over the missing segments in \<^verbatim>\<open>assembleWindowMel\<close>; a throw ends it.\<close>

fun computeMissing ::
  "primitive \<Rightarrow> string \<Rightarrow> tile list \<Rightarrow> params \<Rightarrow> worker \<Rightarrow> (failure + unit) \<times> worker" where
  "computeMissing prim fileId [] p st = (Inr (), st)"
| "computeMissing prim fileId (seg # segs) p st =
     (case computeSegmentAndPopulateTiles prim fileId seg p st of
        (Inl e, st') \<Rightarrow> (Inl e, st')
      | (Inr u, st') \<Rightarrow> computeMissing prim fileId segs p st')"

definition assembleWindowMel ::
  "primitive \<Rightarrow> string \<Rightarrow> params \<Rightarrow> worker \<Rightarrow> ((failure + jsnum list \<times> int) \<times> worker) option" where
  "assembleWindowMel prim fileId p st =
     (case framesForWindow p of
        None \<Rightarrow> None
      | Some F \<Rightarrow>
          (let needed = fst (analyzeTiles (melTileCache st) fileId (fst F) (snd F) p);
               missing = snd (analyzeTiles (melTileCache st) fileId (fst F) (snd F) p);
               r = computeMissing prim fileId missing p st;
               st' = snd r
           in (case fst r of
                 Inl e \<Rightarrow> Some (Inl e, st')
               | Inr u \<Rightarrow>
                   (case concatTiles
                           (map (\<lambda>t. melTileCache st' (tileKey fileId (startFrame t) (frames t) p))
                                needed) of
                      Inl e \<Rightarrow> Some (Inl e, st')
                    | Inr mel \<Rightarrow> Some (Inr (mel, snd F - fst F + 1), st')))))"

subsection \<open>The display mapping\<close>

text \<open>The minimum and maximum of the finite values, from \<^verbatim>\<open>Infinity\<close> and \<^verbatim>\<open>-Infinity\<close>.\<close>

fun minmaxLoop :: "jsnum list \<Rightarrow> jsnum \<Rightarrow> jsnum \<Rightarrow> jsnum \<times> jsnum" where
  "minmaxLoop [] smin smax = (smin, smax)"
| "minmaxLoop (v # vs) smin smax =
     (if \<not> isFinite v then minmaxLoop vs smin smax
      else minmaxLoop vs (if js_lt v smin then v else smin) (if js_gt v smax then v else smax))"

text \<open>\<^verbatim>\<open>Array.from(mel).filter(Number.isFinite).sort((a, b) => a - b)\<close>.\<close>

definition sortedFinite :: "jsnum list \<Rightarrow> real list" where
  "sortedFinite mel = sort (map fin_val (filter isFinite mel))"

definition gainBounds :: "params \<Rightarrow> jsnum list \<Rightarrow> jsnum \<times> jsnum" where
  "gainBounds p mel =
     (let mm = minmaxLoop mel PInf NInf;
          sorted = sortedFinite mel;
          len = real (length sorted);
          idxLow = js_floor (js_mul (Fin (fl (5 / 100))) (Fin len));
          idxHigh = js_floor (js_mul (js_div (gainPercentile p) (Fin 100)) (Fin len));
          smin = (if dynamicGain p \<and> 0 < length sorted
                  then js_index sorted (js_min idxLow (Fin (len - 1))) else fst mm);
          smax = (if dynamicGain p \<and> 0 < length sorted
                  then js_index sorted (js_min idxHigh (Fin (len - 1))) else snd mm)
      in (smin, if \<not> js_gt smax smin then js_add smin (Fin (fl (1 / 1000000))) else smax))"

definition chooseGamma :: "params \<Rightarrow> jsnum list \<Rightarrow> jsnum \<Rightarrow> jsnum \<Rightarrow> jsnum" where
  "chooseGamma p mel smin smax =
     (if autoGamma p then
        (let sorted = sortedFinite mel;
             mid = (if length sorted \<noteq> 0
                    then js_index sorted (js_floor (js_mul (Fin (real (length sorted))) (Fin (1 / 2))))
                    else Fin 0);
             normalizedMedian = js_div (js_sub mid smin) (js_sub smax smin)
         in if js_lt normalizedMedian (Fin (fl (3 / 10))) then Fin (fl (6 / 10))
            else if js_gt normalizedMedian (Fin (fl (7 / 10))) then Fin (fl (14 / 10))
            else Fin 1)
      else gammaValue p)"

text \<open>\<^verbatim>\<open>Math.max(0, Math.min(1, x))\<close>.\<close>

definition clamp01 :: "jsnum \<Rightarrow> jsnum" where
  "clamp01 x = js_max (Fin 0) (js_min (Fin 1) x)"

text \<open>
  The body of the rasterize loop for one spectral value \<open>v\<close>: \<^verbatim>\<open>clampedValue\<close>, the display
  intensity, and \<^verbatim>\<open>num\<close>, the index into the colour table.
\<close>

definition clampedValue :: "jsnum \<Rightarrow> jsnum \<Rightarrow> jsnum \<Rightarrow> jsnum \<Rightarrow> jsnum \<Rightarrow> jsnum \<Rightarrow> jsnum" where
  "clampedValue v smin smax gamma c b =
     (let normalizedValue = js_div (js_sub v smin) (js_sub smax smin);
          normalizedValue = (if \<not> isFinite normalizedValue then Fin 0 else normalizedValue);
          normalizedValue = clamp01 normalizedValue;
          gammaAdjusted = js_pow normalizedValue gamma;
          adjustedValue = js_add (js_add (js_mul (js_sub gammaAdjusted (Fin (1 / 2))) c)
                                         (Fin (1 / 2))) b
      in clamp01 adjustedValue)"

definition colorIndex :: "jsnum \<Rightarrow> jsnum \<Rightarrow> jsnum \<Rightarrow> jsnum \<Rightarrow> jsnum \<Rightarrow> jsnum \<Rightarrow> int" where
  "colorIndex v smin smax gamma c b = toInt32 (js_mul (clampedValue v smin smax gamma c b) (Fin 255))"

subsection \<open>The colour table and the rasterizer\<close>

definition clampByte :: "int \<Rightarrow> int" where
  "clampByte r = max 0 (min 255 r)"

text \<open>
  The expression \<^verbatim>\<open>a * (1 - localT) + b * localT\<close> of \<^verbatim>\<open>buildViridisLUT\<close>, each operation
  rounded, and the four bytes that \<^verbatim>\<open>buildViridisLUT\<close> writes for the index \<open>i\<close>.
\<close>

definition mix :: "real \<Rightarrow> real \<Rightarrow> real \<Rightarrow> real" where
  "mix a b localT = fl (fl (a * fl (1 - localT)) + fl (b * localT))"

definition lutEntry :: "int \<Rightarrow> int list" where
  "lutEntry i =
     (let t = fl (real_of_int i / 255) in
      if t < 1 / 4 then
        (let localT = fl (t / (1 / 4)) in
         [clampByte (js_round (mix 68 59 localT)),
          clampByte (js_round (mix 1 82 localT)),
          clampByte (js_round (mix 84 139 localT)), 255])
      else if t < 1 / 2 then
        (let localT = fl (fl (t - 1 / 4) / (1 / 4)) in
         [clampByte (js_round (mix 59 53 localT)),
          clampByte (js_round (mix 82 183 localT)),
          clampByte (js_round (mix 139 121 localT)), 255])
      else if t < 3 / 4 then
        (let localT = fl (fl (t - 1 / 2) / (1 / 4)) in
         [clampByte (js_round (mix 53 253 localT)),
          clampByte (js_round (mix 183 231 localT)),
          clampByte (js_round (mix 121 37 localT)), 255])
      else
        (let localT = fl (fl (t - 3 / 4) / (1 / 4)) in
         [clampByte (js_round (mix 253 254 localT)),
          clampByte (js_round (mix 231 240 localT)),
          clampByte (js_round (mix 37 36 localT)), 255]))"

definition viridisLUT :: "int list" where
  "viridisLUT = concat (map (\<lambda>i. lutEntry (int i)) [0..<256])"

text \<open>
  \<^verbatim>\<open>viridisLUT[k]\<close> as it is stored into the image data: a read outside the table is
  \<^verbatim>\<open>undefined\<close>, which a \<^verbatim>\<open>Uint8ClampedArray\<close> stores as 0.
\<close>

definition lut_at :: "int \<Rightarrow> int" where
  "lut_at k = (if 0 \<le> k \<and> k < int (length viridisLUT) then viridisLUT ! nat k else 0)"

text \<open>
  The four bytes written at offset \<^verbatim>\<open>((height - 1 - j) * width + i) * 4\<close> for time column
  \<open>i\<close> and mel band \<open>j\<close>.
\<close>

definition pixelAt ::
  "jsnum list \<Rightarrow> int \<Rightarrow> jsnum \<Rightarrow> jsnum \<Rightarrow> jsnum \<Rightarrow> params \<Rightarrow> int \<Rightarrow> int \<Rightarrow> int list" where
  "pixelAt mel height smin smax gamma p i j =
     (let v = mel_at mel (i * height + j);
          num = colorIndex v smin smax gamma (contrast p) (brightness p)
      in [lut_at (num * 4 + 0), lut_at (num * 4 + 1), lut_at (num * 4 + 2), 255])"

text \<open>
  The image data after the two nested loops. The loops write every pixel of the
  \<open>width \<times> height\<close> image once, so the data is given row by row from the top: row \<open>y\<close>
  holds mel band \<open>height - 1 - y\<close>.
\<close>

definition rasterize ::
  "jsnum list \<Rightarrow> int \<Rightarrow> int \<Rightarrow> jsnum \<Rightarrow> jsnum \<Rightarrow> jsnum \<Rightarrow> params \<Rightarrow> int list" where
  "rasterize mel width height smin smax gamma p =
     concat (map (\<lambda>y. concat (map (\<lambda>i. pixelAt mel height smin smax gamma p (int i)
                                           (height - 1 - int y))
                                  [0..<nat width]))
                 [0..<nat height])"

subsection \<open>The message handler\<close>

datatype reply = Image int int "int list" | Error failure

text \<open>The blob of a fresh \<^verbatim>\<open>OffscreenCanvas(1, 1)\<close>: one transparent pixel.\<close>

definition placeholder :: reply where
  "placeholder = Image 1 1 [0, 0, 0, 0]"

text \<open>
  The \<^verbatim>\<open>render\<close> branch of \<^verbatim>\<open>self.onmessage\<close>. \<^verbatim>\<open>mel\<close> is a typed array, so \<^verbatim>\<open>!mel\<close> is
  false and the guard of the placeholder is \<^verbatim>\<open>frames <= 0\<close>. \<^verbatim>\<open>new OffscreenCanvas\<close>
  rejects a negative size and \<^verbatim>\<open>createImageData\<close> a zero one. The image reply carries the
  canvas that \<^verbatim>\<open>convertToBlob\<close> encodes. \<open>None\<close> is \<^verbatim>\<open>hop_length = 0\<close>, see
  \<open>framesForWindow\<close>.
\<close>

definition render :: "primitive \<Rightarrow> string \<Rightarrow> params \<Rightarrow> worker \<Rightarrow> (reply \<times> worker) option" where
  "render prim fileId p st =
     (case assembleWindowMel prim fileId p (st\<lparr>wasmReady := True\<rparr>) of
        None \<Rightarrow> None
      | Some r \<Rightarrow>
          (case fst r of
             Inl e \<Rightarrow> Some (Error e, snd r)
           | Inr a \<Rightarrow>
               (let mel = fst a; width = snd a; height = n_mels p in
                if snd a \<le> 0 then Some (placeholder, snd r)
                else
                  (let smin = fst (gainBounds p mel);
                       smax = snd (gainBounds p mel);
                       gamma = chooseGamma p mel smin smax
                   in if height < 0 then Some (Error TypeError, snd r)
                      else if height = 0 then Some (Error IndexSizeError, snd r)
                      else Some (Image width height
                                   (rasterize mel width height smin smax gamma p), snd r)))))"

datatype msg = Init | SetPcm string real "jsnum list" | Render string params

text \<open>\<^verbatim>\<open>self.onmessage\<close>: the reply posted, if any, and the new state.\<close>

definition onmessage :: "primitive \<Rightarrow> msg \<Rightarrow> worker \<Rightarrow> (reply option \<times> worker) option" where
  "onmessage prim m st =
     (case m of
        Init \<Rightarrow> Some (None, st\<lparr>wasmReady := True\<rparr>)
      | SetPcm fileId sr pcm \<Rightarrow> Some (None, st\<lparr>pcmStore := (pcmStore st)(fileId \<mapsto> (sr, pcm))\<rparr>)
      | Render fileId p \<Rightarrow>
          (case render prim fileId p st of
             None \<Rightarrow> None
           | Some r \<Rightarrow> Some (Some (fst r), snd r)))"


subsection \<open>Notions used to state the properties\<close>


definition tile_range :: "tile \<Rightarrow> int list" where
  "tile_range t = [startFrame t .. startFrame t + frames t - 1]"




text \<open>
  The number of maximal runs of \<open>True\<close> in a list of flags: a run ends at a \<open>True\<close> that
  is last or followed by \<open>False\<close>.
\<close>

fun countRuns :: "bool list \<Rightarrow> nat" where
  "countRuns [] = 0"
| "countRuns [b] = (if b then 1 else 0)"
| "countRuns (b # b' # bs) = (if b \<and> \<not> b' then 1 else 0) + countRuns (b' # bs)"




text \<open>
  Modelled from the spec: \<^verbatim>\<open>mel_spectrogram_db\<close> itself is missing from the sources. The
  specification fixes its interface only: one row per output frame, \<^verbatim>\<open>n_mels\<close> columns each,
  frames \<^verbatim>\<open>hop_length\<close> samples apart. \<open>framingPrimitive\<close> is the simplest function of that
  shape, used where a property is evaluated on a concrete input: one row for every full
  hop of the slice it is given, holding \<^verbatim>\<open>n_mels\<close> copies of the first sample of that hop.
  \<open>failingPrimitive m\<close> throws the message \<open>m\<close> on every call.
\<close>

definition framingPrimitive :: primitive where
  "framingPrimitive sr samples nfft wl hop fmin fmax nmels topdb =
     (if hop \<le> 0 then Inr []
      else Inr (map (\<lambda>i. replicate (nat nmels) (samples ! (i * nat hop)))
                    [0..<length samples div nat hop]))"


text \<open>The samples \<open>0, 1, \<dots>, n - 1\<close>.\<close>

definition ramp :: "nat \<Rightarrow> jsnum list" where
  "ramp n = map (\<lambda>i. Fin (real i)) [0..<n]"

text \<open>The samples \<open>a, \<dots>, b - 1\<close>.\<close>

definition rampSeg :: "nat \<Rightarrow> nat \<Rightarrow> jsnum list" where
  "rampSeg a b = map (\<lambda>i. Fin (real i)) [a..<b]"

text \<open>
  A request with one sample per frame and one mel band: sample rate 1, hop 1,
  \<^verbatim>\<open>n_fft\<close> 1, a window of \<open>w\<close> seconds from \<open>t\<close>, display parameters neutral.
\<close>

definition unit_params :: "real \<Rightarrow> real \<Rightarrow> params" where
  "unit_params t w = \<lparr>sampleRate = 1, n_fft = 1, win_length = 1, hop_length = 1,
     f_min = 0, f_max = 1 / 2, n_mels = 1, top_db = 80, t0 = t, windowDuration = w,
     dynamicGain = False, autoGamma = False, gammaValue = Fin 1, gainPercentile = Fin 95,
     brightness = Fin 0, contrast = Fin 1, colormap = ''viridis''\<rparr>"

text \<open>Five samples, and the state after \<^verbatim>\<open>set_pcm\<close> of given samples for the file \<open>a\<close>.\<close>

definition short_pcm :: "jsnum list" where
  "short_pcm = [Fin 0, Fin 1, Fin 2, Fin 3, Fin 4]"

definition loaded :: "jsnum list \<Rightarrow> worker" where
  "loaded pcm = init_worker\<lparr>pcmStore := [''a'' \<mapsto> (1, pcm)]\<rparr>"

text \<open>The state after a list of messages, handled in order.\<close>

fun run :: "primitive \<Rightarrow> msg list \<Rightarrow> worker \<Rightarrow> worker option" where
  "run prim [] st = Some st"
| "run prim (m # ms) st =
     (case onmessage prim m st of None \<Rightarrow> None | Some r \<Rightarrow> run prim ms (snd r))"

text \<open>
  The state reached from \<open>loaded short_pcm\<close> by rendering ten frames from frame 2, and a
  request with a zero \<^verbatim>\<open>n_fft\<close> and \<^verbatim>\<open>f_min\<close> above \<^verbatim>\<open>f_max\<close>; the state after the first of
  two renders over 3000 samples.
\<close>

definition warm :: worker where
  "warm = (loaded short_pcm)\<lparr>wasmReady := True, primCalls := 1,
      melTileCache := [tileKey ''a'' 2 10 (unit_params 2 10) \<mapsto> [Fin 2, Fin 3, Fin 4]]\<rparr>"


definition invalid_params :: params where
  "invalid_params = (unit_params 0 2)\<lparr>n_fft := 0, f_min := 8000, f_max := 100\<rparr>"

definition first_window_state :: worker where
  "first_window_state = the (run framingPrimitive
      [SetPcm ''a'' 1 (ramp 3000), Render ''a'' (unit_params 0 1024)] init_worker)"

text \<open>
  The reference of the cache-correctness property, in the words of the specification:
  the primitive called once on the samples of the whole frame range \<open>[F0, F1]\<close>, extended
  by \<^verbatim>\<open>n_fft\<close> samples on both sides and clamped to the buffer, with
  \<open>\<lfloor>n_fft / hop_length\<rfloor>\<close> frames discarded in front and the next \<open>F1 - F0 + 1\<close> kept.
\<close>

definition windowReference :: "primitive \<Rightarrow> jsnum list \<Rightarrow> params \<Rightarrow> int \<Rightarrow> int \<Rightarrow> failure + jsnum list" where
  "windowReference prim pcm p F0 F1 =
     (case prim (sampleRate p)
                (js_slice pcm (max 0 (F0 * hop_length p - n_fft p))
                              (min (int (length pcm)) ((F1 + 1) * hop_length p + n_fft p)))
                (n_fft p) (win_length p) (hop_length p) (f_min p) (f_max p) (n_mels p) (top_db p) of
        Inl m \<Rightarrow> Inl (PrimitiveFailure m)
      | Inr rows \<Rightarrow>
          flattenMel (js_slice rows (n_fft p div hop_length p)
                                    (n_fft p div hop_length p + (F1 - F0 + 1)))
                     (n_mels p))"

text \<open>
  The per-sample mapping in the words of the specification, for finite numbers, each
  operation giving a double:
  \<open>norm = clamp((v - smin) / (smax - smin), 0, 1)\<close>, \<open>g = norm ^ gamma\<close>,
  \<open>adjusted = clamp((g - 0.5) * contrast + 0.5 + brightness, 0, 1)\<close>,
  \<open>index = round(adjusted * 255)\<close>.
\<close>

definition clampReal :: "real \<Rightarrow> real" where
  "clampReal x = max 0 (min 1 x)"

definition specAdjusted :: "real \<Rightarrow> real \<Rightarrow> real \<Rightarrow> real \<Rightarrow> real \<Rightarrow> real \<Rightarrow> real" where
  "specAdjusted v smin smax gamma c b =
     (let norm = clampReal (fl (fl (v - smin) / fl (smax - smin)));
          g = fl (norm powr gamma)
      in clampReal (fl (fl (fl (fl (g - 1 / 2) * c) + 1 / 2) + b)))"

definition specIndex :: "real \<Rightarrow> real \<Rightarrow> real \<Rightarrow> real \<Rightarrow> real \<Rightarrow> real \<Rightarrow> int" where
  "specIndex v smin smax gamma c b = js_round (fl (specAdjusted v smin smax gamma c b * 255))"

text \<open>The request of the specification's example: 32000 Hz, hop 256, 8 s from 0.\<close>

definition example_params :: params where
  "example_params = \<lparr>sampleRate = 32000, n_fft = 2048, win_length = 2048, hop_length = 256,
     f_min = 0, f_max = 16000, n_mels = 64, top_db = 80, t0 = 0, windowDuration = 8,
     dynamicGain = False, autoGamma = False, gammaValue = Fin 1, gainPercentile = Fin 95,
     brightness = Fin 0, contrast = Fin 1, colormap = ''viridis''\<rparr>"

text \<open>
  A request at 48000 Hz with hop 441, for 147 s from 147 s: the exact product
  \<open>147 * 48000 / 441\<close> is 16000, the product of the doubles is just below it.
\<close>

definition long_params :: params where
  "long_params = \<lparr>sampleRate = 48000, n_fft = 2048, win_length = 2048, hop_length = 441,
     f_min = 0, f_max = 24000, n_mels = 64, top_db = 80, t0 = 147, windowDuration = 147,
     dynamicGain = False, autoGamma = False, gammaValue = Fin 1, gainPercentile = Fin 95,
     brightness = Fin 0, contrast = Fin 1, colormap = ''viridis''\<rparr>"

section \<open>Properties\<close>

subsection \<open>Rounding to doubles\<close>

lemma rne_of_int [simp]: "rne (of_int n) = n"
  by (simp add: rne_def)

lemma rne_cases: "rne r = \<lfloor>r\<rfloor> \<or> rne r = \<lfloor>r\<rfloor> + 1"
  by (simp add: rne_def)

lemma rne_nonneg: "0 \<le> r \<Longrightarrow> 0 \<le> rne r"
  using rne_cases[of r] by (auto simp: zero_le_floor)

lemma rne_le: "r \<le> of_int N \<Longrightarrow> rne r \<le> N"
proof (cases "r = of_int \<lfloor>r\<rfloor>")
  case True
  assume "r \<le> of_int N"
  then have "\<lfloor>r\<rfloor> \<le> N" by (simp add: floor_le_iff)
  moreover have "rne r = \<lfloor>r\<rfloor>" using True by (metis rne_of_int)
  ultimately show ?thesis by simp
next
  case False
  assume a: "r \<le> of_int N"
  have "of_int \<lfloor>r\<rfloor> < r" using False by (metis of_int_floor_le order_less_le)
  then have "of_int \<lfloor>r\<rfloor> < (of_int N :: real)" using a by linarith
  then have "\<lfloor>r\<rfloor> < N" by simp
  then show ?thesis using rne_cases[of r] by auto
qed

lemma pow2_pos [simp]: "0 < (2::real) powr y"
  by simp

lemma fl_0 [simp]: "fl 0 = 0"
  by (simp add: fl_def)

lemma fl_nonneg: "0 \<le> x \<Longrightarrow> 0 \<le> fl x"
  by (simp add: fl_def rne_nonneg)

lemma floor_log2_less:
  assumes "x \<noteq> 0" "\<bar>x\<bar> < 2 powr of_int n"
  shows "\<lfloor>log 2 \<bar>x\<bar>\<rfloor> < n"
proof -
  have "log 2 \<bar>x\<bar> < log 2 (2 powr of_int n)" using assms by (intro log_less) auto
  then have "log 2 \<bar>x\<bar> < of_int n" by simp
  then show ?thesis by (simp add: floor_less_iff)
qed

lemma pow2_int: "0 \<le> j \<Longrightarrow> (2::real) powr of_int j = of_int (2 ^ nat j)"
  by (metis of_int_numeral of_int_power powr_real_of_int zero_less_numeral)

lemma fl_exact:
  assumes "\<bar>m\<bar> < 2 ^ 53" "- 1074 \<le> k"
  shows "fl (of_int m * 2 powr of_int k) = of_int m * 2 powr of_int k"
proof (cases "m = 0")
  case True
  then show ?thesis by simp
next
  case False
  let ?x = "of_int m * 2 powr of_int k :: real"
  let ?u = "ulp_exp ?x"
  have x0: "?x \<noteq> 0" using False by simp
  have "\<bar>?x\<bar> = \<bar>of_int m\<bar> * 2 powr of_int k" by (simp add: abs_mult)
  also have "\<dots> < 2 ^ 53 * 2 powr of_int k"
  proof -
    have "\<bar>of_int m :: real\<bar> < 2 ^ 53" using assms(1) by (metis of_int_abs of_int_less_iff of_int_numeral of_int_power)
    then show ?thesis by simp
  qed
  also have "\<dots> = 2 powr of_int (53 + k)"
    by (simp add: powr_add)
  finally have "\<lfloor>log 2 \<bar>?x\<bar>\<rfloor> < 53 + k" using floor_log2_less[OF x0] by blast
  then have uk: "?u \<le> k" using assms(2) by (simp add: ulp_exp_def)
  have p: "(2::real) powr of_int (k - ?u) = of_int (2 ^ nat (k - ?u))"
    using uk by (intro pow2_int) simp
  have "?x / 2 powr of_int ?u = of_int m * 2 powr of_int (k - ?u)"
    by (simp add: powr_diff)
  also have "\<dots> = of_int (m * 2 ^ nat (k - ?u))"
    unfolding p by simp
  finally have "rne (?x / 2 powr of_int ?u) = m * 2 ^ nat (k - ?u)"
    by (simp only: rne_of_int)
  then have "fl ?x = of_int (m * 2 ^ nat (k - ?u)) * 2 powr of_int ?u"
    using x0 by (simp add: fl_def)
  also have "\<dots> = of_int m * (2 powr of_int (k - ?u) * 2 powr of_int ?u)"
    unfolding p by simp
  also have "\<dots> = ?x" by (simp add: powr_add[symmetric])
  finally show ?thesis .
qed

lemma fl_int: "\<bar>n\<bar> < 2 ^ 53 \<Longrightarrow> fl (of_int n) = of_int n"
  using fl_exact[of n 0] by simp

lemma fl_le_int:
  assumes "0 \<le> x" "x \<le> of_int M" "M < 2 ^ 53"
  shows "fl x \<le> of_int M"
proof (cases "x = 0")
  case True
  then show ?thesis using assms by simp
next
  case False
  let ?u = "ulp_exp x"
  have "\<bar>x\<bar> < 2 powr of_int 53"
  proof -
    have "(of_int M :: real) < 2 ^ 53" using assms(3) by (metis of_int_less_iff of_int_numeral of_int_power)
    then show ?thesis using assms(1,2) by simp
  qed
  then have "\<lfloor>log 2 \<bar>x\<bar>\<rfloor> < 53" using floor_log2_less[OF False] by blast
  then have u: "?u \<le> 0" by (simp add: ulp_exp_def)
  have "real_of_int M / 2 powr of_int ?u = of_int M * 2 powr of_int (- ?u)"
    by (simp add: powr_minus field_simps)
  also have "\<dots> = of_int (M * 2 ^ nat (- ?u))" using u pow2_int[of "- ?u"] by simp
  finally have Mi: "real_of_int M / 2 powr of_int ?u = of_int (M * 2 ^ nat (- ?u))" .
  have "x / 2 powr of_int ?u \<le> of_int M / 2 powr of_int ?u"
    using assms(2) by (simp add: divide_right_mono)
  then have "rne (x / 2 powr of_int ?u) \<le> M * 2 ^ nat (- ?u)"
    unfolding Mi by (rule rne_le)
  then have "of_int (rne (x / 2 powr of_int ?u)) \<le> (of_int (M * 2 ^ nat (- ?u)) :: real)"
    by (simp only: of_int_le_iff)
  then have "of_int (rne (x / 2 powr of_int ?u)) * 2 powr of_int ?u
             \<le> (of_int (M * 2 ^ nat (- ?u)) :: real) * 2 powr of_int ?u"
    by (simp add: mult_right_mono)
  also have "\<dots> = of_int M" using Mi by (simp add: field_simps)
  finally show ?thesis using False by (simp add: fl_def)
qed

lemma fl_eval:
  assumes "2 powr of_int n \<le> \<bar>x\<bar>" "\<bar>x\<bar> < 2 powr of_int (n + 1)" "- 1022 \<le> n"
  shows "fl x = of_int (rne (x / 2 powr of_int (n - 52))) * 2 powr of_int (n - 52)"
proof -
  have x0: "x \<noteq> 0" using assms(1) by (metis abs_zero not_le pow2_pos)
  have "\<lfloor>log 2 \<bar>x\<bar>\<rfloor> = n"
    using assms(1,2) x0 by (subst floor_log_eq_powr_iff) auto
  then have "ulp_exp x = n - 52" using assms(3) by (simp add: ulp_exp_def)
  then show ?thesis using x0 by (simp add: fl_def)
qed

lemma fl_eval_frac:
  assumes "2 powr of_int n \<le> \<bar>x\<bar>" "\<bar>x\<bar> < 2 powr of_int (n + 1)" "- 1022 \<le> n" "n \<le> 52"
  shows "fl x = of_int (rne (x * 2 ^ nat (52 - n))) / 2 ^ nat (52 - n)"
proof -
  have p: "(2::real) powr of_int (52 - n) = 2 ^ nat (52 - n)"
    using assms(4) pow2_int[of "52 - n"] by simp
  have q: "(2::real) powr of_int (n - 52) = 1 / 2 ^ nat (52 - n)"
    using p powr_minus[of "2::real" "of_int (52 - n)"] by (simp add: field_simps)
  show ?thesis unfolding fl_eval[OF assms(1-3)] q by simp
qed

lemma rne_ge: "of_int N \<le> r \<Longrightarrow> N \<le> rne r"
proof -
  assume "of_int N \<le> r"
  then have "N \<le> \<lfloor>r\<rfloor>" by (simp add: le_floor_iff)
  then show ?thesis using rne_cases[of r] by auto
qed

lemma fl_nonpos: "x \<le> 0 \<Longrightarrow> fl x \<le> 0"
proof -
  assume a: "x \<le> 0"
  have "x / 2 powr of_int (ulp_exp x) \<le> of_int 0" using a by (simp add: divide_nonpos_pos)
  then have "rne (x / 2 powr of_int (ulp_exp x)) \<le> 0" by (rule rne_le)
  then show ?thesis by (simp add: fl_def mult_nonpos_nonneg)
qed

lemma ulp_exp_le:
  assumes "x \<noteq> 0" "\<bar>x\<bar> \<le> 2 powr of_int k" "- 1074 \<le> k"
  shows "ulp_exp x \<le> k"
proof -
  have "log 2 \<bar>x\<bar> \<le> log 2 (2 powr of_int k)" using assms(1,2) by (intro log_mono) auto
  then have "log 2 \<bar>x\<bar> \<le> of_int k" by simp
  then have "\<lfloor>log 2 \<bar>x\<bar>\<rfloor> \<le> k" by (simp add: floor_le_iff)
  then show ?thesis using assms(3) by (simp add: ulp_exp_def)
qed

lemma pow2_quot:
  assumes "u \<le> k"
  shows "(2::real) powr of_int k / 2 powr of_int u = of_int (2 ^ nat (k - u))"
proof -
  have "(2::real) powr of_int k / 2 powr of_int u = 2 powr of_int (k - u)"
    by (simp add: powr_diff)
  also have "\<dots> = of_int (2 ^ nat (k - u))" using assms by (intro pow2_int) simp
  finally show ?thesis .
qed

lemma fl_le_pow2:
  assumes "x \<le> 2 powr of_int k" "- 1074 \<le> k"
  shows "fl x \<le> 2 powr of_int k"
proof (cases "0 < x")
  case False
  then have "fl x \<le> 0" by (intro fl_nonpos) simp
  also have "(0::real) \<le> 2 powr of_int k" by simp
  finally show ?thesis .
next
  case True
  let ?u = "ulp_exp x"
  have u: "?u \<le> k" using True assms by (intro ulp_exp_le) auto
  have "x / 2 powr of_int ?u \<le> 2 powr of_int k / 2 powr of_int ?u"
    using assms(1) by (simp add: divide_right_mono)
  then have "x / 2 powr of_int ?u \<le> of_int (2 ^ nat (k - ?u))"
    unfolding pow2_quot[OF u] .
  then have "rne (x / 2 powr of_int ?u) \<le> 2 ^ nat (k - ?u)" by (rule rne_le)
  then have "real_of_int (rne (x / 2 powr of_int ?u)) \<le> of_int (2 ^ nat (k - ?u))"
    by (simp only: of_int_le_iff)
  then have "of_int (rne (x / 2 powr of_int ?u)) * 2 powr of_int ?u
             \<le> real_of_int (2 ^ nat (k - ?u)) * 2 powr of_int ?u"
    by (simp add: mult_right_mono)
  also have "\<dots> = 2 powr of_int k" using pow2_quot[OF u] by (simp add: field_simps)
  finally show ?thesis using True by (simp add: fl_def)
qed

lemma fl_ge_neg_pow2:
  assumes "- (2 powr of_int k) \<le> x" "- 1074 \<le> k"
  shows "- (2 powr of_int k) \<le> fl x"
proof (cases "x < 0")
  case False
  have "- (2 powr of_int k) \<le> (0::real)" by simp
  also have "0 \<le> fl x" using False by (intro fl_nonneg) simp
  finally show ?thesis .
next
  case True
  let ?u = "ulp_exp x"
  have u: "?u \<le> k" using True assms by (intro ulp_exp_le) auto
  have "- (2 powr of_int k) / 2 powr of_int ?u \<le> x / 2 powr of_int ?u"
    using assms(1) by (intro divide_right_mono) auto
  then have "of_int (- (2 ^ nat (k - ?u))) \<le> x / 2 powr of_int ?u"
    using pow2_quot[OF u] by simp
  then have "- (2 ^ nat (k - ?u)) \<le> rne (x / 2 powr of_int ?u)" by (rule rne_ge)
  then have "real_of_int (- (2 ^ nat (k - ?u))) \<le> of_int (rne (x / 2 powr of_int ?u))"
    by (simp only: of_int_le_iff)
  then have "real_of_int (- (2 ^ nat (k - ?u))) * 2 powr of_int ?u
             \<le> of_int (rne (x / 2 powr of_int ?u)) * 2 powr of_int ?u"
    by (intro mult_right_mono) auto
  moreover have "real_of_int (- (2 ^ nat (k - ?u))) * 2 powr of_int ?u = - (2 powr of_int k)"
    using pow2_quot[OF u] by (simp add: field_simps)
  ultimately show ?thesis using True by (simp add: fl_def)
qed

lemma fl_abs_le_pow2:
  assumes "\<bar>x\<bar> \<le> 2 powr of_int k" "- 1074 \<le> k"
  shows "\<bar>fl x\<bar> \<le> 2 powr of_int k"
proof -
  have "fl x \<le> 2 powr of_int k" using assms by (intro fl_le_pow2) auto
  moreover have "- (2 powr of_int k) \<le> fl x" using assms by (intro fl_ge_neg_pow2) auto
  ultimately show ?thesis by (simp add: abs_le_iff)
qed

lemma fl_ge_pow2:
  assumes "2 powr of_int k \<le> x" "- 1074 \<le> k"
  shows "2 powr of_int k \<le> fl x"
proof -
  have x0: "0 < x" using assms(1) by (rule less_le_trans[OF pow2_pos])
  let ?n = "\<lfloor>log 2 \<bar>x\<bar>\<rfloor>"
  let ?u = "ulp_exp x"
  have n: "2 powr of_int ?n \<le> x"
    using x0 floor_log_eq_powr_iff[of x 2 ?n] by simp
  have kn: "k \<le> ?n"
  proof -
    have "log 2 (2 powr of_int k) \<le> log 2 x" using assms(1) by (intro log_mono) auto
    then have "of_int k \<le> log 2 x" by simp
    then show ?thesis using x0 by (simp add: le_floor_iff)
  qed
  obtain t where t: "?u \<le> t" "k \<le> t" "2 powr of_int t \<le> x"
  proof (cases "- 1022 \<le> ?n")
    case True
    then have "?u \<le> ?n" by (simp add: ulp_exp_def)
    then show ?thesis using kn n that by blast
  next
    case False
    then have "?u \<le> k" using assms(2) by (simp add: ulp_exp_def)
    then show ?thesis using assms(1) that[of k] by simp
  qed
  have "2 powr of_int t / 2 powr of_int ?u \<le> x / 2 powr of_int ?u"
    using t(3) by (simp add: divide_right_mono)
  then have "of_int (2 ^ nat (t - ?u)) \<le> x / 2 powr of_int ?u"
    unfolding pow2_quot[OF t(1)] .
  then have "2 ^ nat (t - ?u) \<le> rne (x / 2 powr of_int ?u)" by (rule rne_ge)
  then have "real_of_int (2 ^ nat (t - ?u)) \<le> of_int (rne (x / 2 powr of_int ?u))"
    by (simp only: of_int_le_iff)
  then have "real_of_int (2 ^ nat (t - ?u)) * 2 powr of_int ?u
             \<le> of_int (rne (x / 2 powr of_int ?u)) * 2 powr of_int ?u"
    by (intro mult_right_mono) auto
  moreover have "real_of_int (2 ^ nat (t - ?u)) * 2 powr of_int ?u = 2 powr of_int t"
    using pow2_quot[OF t(1)] by (simp add: field_simps)
  moreover have "(2::real) powr of_int k \<le> 2 powr of_int t" using t(2) by simp
  ultimately have "2 powr of_int k \<le> real_of_int (rne (x / 2 powr of_int ?u)) * 2 powr of_int ?u"
    by linarith
  then show ?thesis using x0 by (simp add: fl_def)
qed

lemma fl_abs_le_pow:
  assumes "\<bar>x\<bar> \<le> 2 ^ n"
  shows "\<bar>fl x\<bar> \<le> 2 ^ n"
  using fl_abs_le_pow2[of x "int n"] assms by (simp add: powr_realpow)

lemma fl_abs_le_half:
  assumes "\<bar>x\<bar> \<le> 1 / 2"
  shows "\<bar>fl x\<bar> \<le> 1 / 2"
  using fl_abs_le_pow2[of x "- 1"] assms by (simp add: powr_minus field_simps)

lemma fl_unit: "0 \<le> x \<Longrightarrow> x \<le> 1 \<Longrightarrow> 0 \<le> fl x \<and> fl x \<le> 1"
  using fl_le_pow2[of x 0] fl_nonneg[of x] by simp

lemma fl_numeral [simp]: "(numeral n :: int) < 2 ^ 53 \<Longrightarrow> fl (numeral n) = numeral n"
  using fl_int[of "numeral n"] by simp

lemma fl_1 [simp]: "fl 1 = 1"
  using fl_int[of 1] by simp

lemma fl_neg_numeral [simp]: "(numeral n :: int) < 2 ^ 53 \<Longrightarrow> fl (- numeral n) = - numeral n"
  using fl_int[of "- numeral n"] by simp

lemma fl_half [simp]: "fl (1 / 2) = 1 / 2" "fl (- (1 / 2)) = - (1 / 2)"
  using fl_exact[of 1 "- 1"] fl_exact[of "- 1" "- 1"] by (simp_all add: powr_minus)

lemma fl_quarter [simp]: "fl (1 / 4) = 1 / 4"
  using fl_exact[of 1 "- 2"] by (simp add: powr_minus)

lemma fl_of_nat: "n < 2 ^ 53 \<Longrightarrow> fl (real n) = real n"
  using fl_int[of "int n"] by simp

lemma fl64_Fin: "\<bar>fl x\<bar> < 2 ^ 1024 \<Longrightarrow> fl64 x = Fin (fl x)"
  by (simp add: fl64_def)

lemma fl64_bounded: "\<bar>x\<bar> \<le> 2 ^ n \<Longrightarrow> n < 1024 \<Longrightarrow> fl64 x = Fin (fl x)"
proof -
  assume a: "\<bar>x\<bar> \<le> 2 ^ n" "n < 1024"
  have "\<bar>fl x\<bar> \<le> 2 ^ n" using a(1) by (rule fl_abs_le_pow)
  also have "(2::real) ^ n < 2 ^ 1024" using a(2) by (intro power_strict_increasing) auto
  finally show ?thesis by (rule fl64_Fin)
qed

lemma fl_ge_inv_pow:
  assumes "1 / 2 ^ n \<le> x" "n \<le> 1074"
  shows "1 / 2 ^ n \<le> fl x"
  using fl_ge_pow2[of "- int n" x] assms by (simp add: powr_minus powr_realpow field_simps)

lemma fl_dyadic:
  assumes "\<bar>m\<bar> < 2 ^ 53" "k \<le> 1074"
  shows "fl (of_int m / 2 ^ k) = of_int m / 2 ^ k"
  using fl_exact[of m "- int k"] assms by (simp add: powr_minus powr_realpow field_simps)

lemma js_sub_Fin:
  "\<bar>a - b\<bar> \<le> 2 ^ n \<Longrightarrow> n < 1024 \<Longrightarrow> js_sub (Fin a) (Fin b) = Fin (fl (a - b))"
  using fl64_bounded[of "a - b" n] by (simp add: js_sub_def)

lemma js_add_Fin:
  "\<bar>a + b\<bar> \<le> 2 ^ n \<Longrightarrow> n < 1024 \<Longrightarrow> js_add (Fin a) (Fin b) = Fin (fl (a + b))"
  using fl64_bounded[of "a + b" n] by simp

lemma js_mul_Fin:
  "\<bar>a * b\<bar> \<le> 2 ^ n \<Longrightarrow> n < 1024 \<Longrightarrow> js_mul (Fin a) (Fin b) = Fin (fl (a * b))"
  using fl64_bounded[of "a * b" n] by simp

lemma js_div_Fin:
  "b \<noteq> 0 \<Longrightarrow> \<bar>a / b\<bar> \<le> 2 ^ n \<Longrightarrow> n < 1024 \<Longrightarrow> js_div (Fin a) (Fin b) = Fin (fl (a / b))"
  using fl64_bounded[of "a / b" n] by simp

lemma fl64_0 [simp]: "fl64 0 = Fin 0"
  by (simp add: fl64_def)

lemma fl64_int: "\<bar>n\<bar> < 2 ^ 53 \<Longrightarrow> fl64 (of_int n) = Fin (of_int n)"
proof -
  assume a: "\<bar>n\<bar> < 2 ^ 53"
  have "\<bar>real_of_int n\<bar> < 2 ^ 53" using a by (metis of_int_abs of_int_less_iff of_int_numeral of_int_power)
  also have "(2::real) ^ 53 < 2 ^ 1024" by simp
  finally show ?thesis using fl_int[OF a] by (simp add: fl64_def)
qed

lemma fl64_numeral [simp]: "(numeral n :: int) < 2 ^ 53 \<Longrightarrow> fl64 (numeral n) = Fin (numeral n)"
  using fl64_int[of "numeral n"] by simp

lemma fl64_1 [simp]: "fl64 1 = Fin 1"
  using fl64_int[of 1] by simp

lemma fl64_neg_numeral [simp]:
  "(numeral n :: int) < 2 ^ 53 \<Longrightarrow> fl64 (- numeral n) = Fin (- numeral n)"
  using fl64_int[of "- numeral n"] by simp

lemma fl64_half [simp]: "fl64 (1 / 2) = Fin (1 / 2)" "fl64 (- (1 / 2)) = Fin (- (1 / 2))"
  by (simp_all add: fl64_def)

lemma fl64_of_nat: "n < 2 ^ 53 \<Longrightarrow> fl64 (real n) = Fin (real n)"
  using fl64_int[of "int n"] by simp

subsection \<open>The needed tiles\<close>

lemma neededTiles_step:
  "cursor \<le> F1 \<Longrightarrow> neededTiles cursor F1 =
     \<lparr>startFrame = cursor, frames = min TILE_FRAMES (F1 - cursor + 1)\<rparr>
     # neededTiles (cursor + min TILE_FRAMES (F1 - cursor + 1)) F1"
  by (subst neededTiles.simps) simp

lemma neededTiles_done: "\<not> cursor \<le> F1 \<Longrightarrow> neededTiles cursor F1 = []"
  by (subst neededTiles.simps) simp


lemma neededTiles_cover: "concat (map tile_range (neededTiles c F1)) = [c..F1]"
proof (induction c F1 rule: neededTiles.induct)
  case (1 cursor F1)
  show ?case
  proof (cases "cursor \<le> F1")
    case True
    let ?k = "min TILE_FRAMES (F1 - cursor + 1)"
    have k: "0 < ?k" "cursor + ?k - 1 \<le> F1" using True by (auto simp: TILE_FRAMES_def)
    have split: "[cursor..F1] = [cursor..cursor + ?k - 1] @ [cursor + ?k..F1]"
    proof (cases "cursor + ?k \<le> F1")
      case True
      then show ?thesis using upto_split1[of cursor "cursor + ?k" F1] k by simp
    next
      case False
      then have "cursor + ?k - 1 = F1"
        using k by (simp add: TILE_FRAMES_def min_def split: if_splits)
      then show ?thesis using False by simp
    qed
    have "tile_range \<lparr>startFrame = cursor, frames = ?k\<rparr> = [cursor..cursor + ?k - 1]"
      by (simp add: tile_range_def)
    then show ?thesis unfolding neededTiles_step[OF True] using 1[OF True] split by simp
  next
    case False
    then show ?thesis by (simp add: neededTiles_done)
  qed
qed

lemma neededTiles_widths:
  "(\<forall>t \<in> set (butlast (neededTiles c F1)). frames t = TILE_FRAMES) \<and>
   (\<forall>t \<in> set (neededTiles c F1). 0 < frames t \<and> frames t \<le> TILE_FRAMES)"
proof (induction c F1 rule: neededTiles.induct)
  case (1 cursor F1)
  show ?case
  proof (cases "cursor \<le> F1")
    case True
    note IH = 1[OF True]
    show ?thesis
    proof (cases "F1 - cursor + 1 \<le> TILE_FRAMES")
      case True
      then have "neededTiles (cursor + min TILE_FRAMES (F1 - cursor + 1)) F1 = []"
        by (simp add: neededTiles_done)
      then show ?thesis using \<open>cursor \<le> F1\<close> True
        by (simp add: neededTiles_step TILE_FRAMES_def)
    next
      case False
      then have "neededTiles (cursor + min TILE_FRAMES (F1 - cursor + 1)) F1 \<noteq> []"
        by (simp add: neededTiles_step TILE_FRAMES_def)
      then show ?thesis using IH \<open>cursor \<le> F1\<close> False
        by (auto simp add: neededTiles_step TILE_FRAMES_def)
    qed
  next
    case False
    then show ?thesis by (simp add: neededTiles_done)
  qed
qed

lemma neededTiles_hd:
  "c \<le> F1 \<Longrightarrow> neededTiles c F1 \<noteq> [] \<and> startFrame (hd (neededTiles c F1)) = c"
  by (simp add: neededTiles_step)

lemma framesForWindow_le:
  "framesForWindow p = Some (F0, F1) \<Longrightarrow> F0 \<le> F1"
  by (auto simp: framesForWindow_def Let_def split: if_splits)

subsection \<open>The missing segments\<close>

lemma countRuns_False [simp]: "countRuns (False # bs) = countRuns bs"
  by (cases bs) auto

lemma countRuns_True_True [simp]: "countRuns (True # True # bs) = countRuns (True # bs)"
  by simp

lemma countRuns_True_False [simp]: "countRuns (True # False # bs) = Suc (countRuns bs)"
  by simp


lemma scanMissing_all_cached:
  "\<forall>t \<in> set ts. isC t \<Longrightarrow> scanMissing isC ts m (- 1) (- 1) = m"
  by (induction ts) auto







subsection \<open>Effects of the assembler on the state\<close>














lemma render_state:
  assumes "render prim f p st = Some (r, st')"
  shows "\<exists>a. assembleWindowMel prim f p (st\<lparr>wasmReady := True\<rparr>) = Some (a, st')"
  using assms by (auto simp: render_def Let_def split: option.splits sum.splits if_splits)








lemma assemble_Inr_cached:
  assumes "assembleWindowMel prim f p st = Some (Inr a, st')"
    and "framesForWindow p = Some (F0, F1)"
  shows "(\<forall>t \<in> set (neededTiles F0 F1). isCached (melTileCache st') f p t)
       \<and> a = (concat (map (\<lambda>t. the (melTileCache st' (tileKey f (startFrame t) (frames t) p)))
                         (neededTiles F0 F1)), F1 - F0 + 1)"
proof -
  let ?tiles = "map (\<lambda>t. melTileCache st' (tileKey f (startFrame t) (frames t) p))
                    (neededTiles F0 F1)"
  let ?missing = "snd (analyzeTiles (melTileCache st) f F0 F1 p)"
  have st': "st' = snd (computeMissing prim f ?missing p st)"
    using assms by (auto simp: assembleWindowMel_def Let_def split: sum.splits)
  have "concatTiles ?tiles = Inr (fst a) \<and> snd a = F1 - F0 + 1"
    using assms st' by (auto simp: assembleWindowMel_def analyzeTiles_def Let_def split: sum.splits)
  then have n: "None \<notin> set ?tiles" and c: "fst a = concat (map the ?tiles)"
    and l: "snd a = F1 - F0 + 1"
    by (auto simp: concatTiles_def split: if_splits)
  have ic: "isCached (melTileCache st') f p t" if "t \<in> set (neededTiles F0 F1)" for t
  proof -
    have "melTileCache st' (tileKey f (startFrame t) (frames t) p) \<in> set ?tiles"
      using that by simp
    then show ?thesis using n unfolding isCached_def by metis
  qed
  have mt: "map the ?tiles
      = map (\<lambda>t. the (melTileCache st' (tileKey f (startFrame t) (frames t) p))) (neededTiles F0 F1)"
    by (simp add: comp_def)
  show ?thesis
  proof (intro conjI ballI)
    fix t assume "t \<in> set (neededTiles F0 F1)"
    then show "isCached (melTileCache st') f p t" by (rule ic)
  next
    show "a = (concat (map (\<lambda>t. the (melTileCache st' (tileKey f (startFrame t) (frames t) p)))
                         (neededTiles F0 F1)), F1 - F0 + 1)"
      using c l unfolding mt by (cases a) simp
  qed
qed

lemma assemble_all_cached:
  assumes "framesForWindow p = Some (F0, F1)"
    and "\<forall>t \<in> set (neededTiles F0 F1). isCached (melTileCache st) f p t"
  shows "assembleWindowMel prim f p st
         = Some (Inr (concat (map (\<lambda>t. the (melTileCache st (tileKey f (startFrame t) (frames t) p)))
                                 (neededTiles F0 F1)), F1 - F0 + 1), st)"
proof -
  have m: "scanMissing (isCached (melTileCache st) f p) (neededTiles F0 F1) [] (- 1) (- 1) = []"
    using scanMissing_all_cached[OF assms(2)] .
  have "None \<notin> set (map (\<lambda>t. melTileCache st (tileKey f (startFrame t) (frames t) p))
                          (neededTiles F0 F1))"
    using assms(2) by (auto simp: isCached_def)
  then show ?thesis using assms(1) m
    by (simp add: assembleWindowMel_def analyzeTiles_def Let_def concatTiles_def comp_def)
qed

text \<open>
  Claim C10. A \<^verbatim>\<open>set_pcm\<close> message posts no reply, leaves the tile cache as it is and
  changes the sample store at the given \<open>fileId\<close> only. So when a window was assembled
  successfully (its tiles are then all cached) and samples for the same file are
  delivered again, whatever they are, assembling the same window returns the same
  spectral values as before. In general a window whose needed tiles are all cached is
  assembled from the tiles of the cache as it was before the message.
\<close>

theorem C10_set_pcm_keeps_cache:
  assumes "onmessage prim (SetPcm fileId sr pcm) st = Some (r, st')"
  shows "r = None
       \<and> melTileCache st' = melTileCache st
       \<and> pcmStore st' fileId = Some (sr, pcm)
       \<and> (\<forall>g. g \<noteq> fileId \<longrightarrow> pcmStore st' g = pcmStore st g)
       \<and> (\<forall>p a st0. assembleWindowMel prim fileId p st0 = Some (Inr a, st)
            \<longrightarrow> assembleWindowMel prim fileId p st' = Some (Inr a, st'))
       \<and> (\<forall>p F0 F1. framesForWindow p = Some (F0, F1)
              \<and> (\<forall>t \<in> set (neededTiles F0 F1). isCached (melTileCache st) fileId p t)
            \<longrightarrow> assembleWindowMel prim fileId p st'
                = Some (Inr (concat (map (\<lambda>t. the (melTileCache st
                                                  (tileKey fileId (startFrame t) (frames t) p)))
                                        (neededTiles F0 F1)), F1 - F0 + 1), st'))"
proof -
  have st': "st' = st\<lparr>pcmStore := (pcmStore st)(fileId \<mapsto> (sr, pcm))\<rparr>" and r: "r = None"
    using assms by (auto simp: onmessage_def)
  have old: "assembleWindowMel prim fileId p st'
      = Some (Inr (concat (map (\<lambda>t. the (melTileCache st
                                        (tileKey fileId (startFrame t) (frames t) p)))
                              (neededTiles F0 F1)), F1 - F0 + 1), st')"
    if F: "framesForWindow p = Some (F0, F1)"
      and c: "\<forall>t \<in> set (neededTiles F0 F1). isCached (melTileCache st) fileId p t"
    for p F0 F1
  proof -
    have "\<forall>t \<in> set (neededTiles F0 F1). isCached (melTileCache st') fileId p t"
      using c st' by simp
    from assemble_all_cached[OF F this, of prim] show ?thesis using st' by simp
  qed
  have "assembleWindowMel prim fileId p st' = Some (Inr a, st')"
    if a: "assembleWindowMel prim fileId p st0 = Some (Inr a, st)" for p a st0
  proof -
    obtain F0 F1 where F: "framesForWindow p = Some (F0, F1)"
      using a by (auto simp: assembleWindowMel_def split: option.splits)
    note c = assemble_Inr_cached[OF a F]
    have "\<forall>t \<in> set (neededTiles F0 F1). isCached (melTileCache st') fileId p t"
      using c st' by simp
    from assemble_all_cached[OF F this, of prim] show ?thesis using c st' by simp
  qed
  then show ?thesis using st' r old by simp
qed

subsection \<open>Evaluating the assembler on concrete inputs\<close>

lemma flattenLoop_uniform:
  "\<forall>row \<in> set rows. length row = n \<Longrightarrow> length out = (t + length rows) * n \<Longrightarrow>
   flattenLoop rows (int n) (int t) out = Inr (take (t * n) out @ concat rows)"
proof (induction rows arbitrary: t out)
  case Nil
  then show ?case by simp
next
  case (Cons row rows)
  have lr: "length row = n" using Cons.prems(1) by simp
  let ?out' = "take (t * n) out @ row @ drop (t * n + n) out"
  have fits: "\<not> (int t * int n < 0 \<or> int (length out) < int t * int n + int (length row))"
    using Cons.prems(2) lr by (simp add: algebra_simps flip: of_nat_mult of_nat_add)
  have ts: "typed_set out row (int t * int n) = Inr ?out'"
    using fits lr by (simp add: typed_set_def nat_mult_distrib)
  have len: "length ?out' = (Suc t + length rows) * n"
    using Cons.prems(2) lr by (simp add: algebra_simps)
  have "flattenLoop rows (int n) (int (Suc t)) ?out' = Inr (take (Suc t * n) ?out' @ concat rows)"
    using Cons.IH[of ?out' "Suc t"] Cons.prems(1) len by simp
  moreover have "take (Suc t * n) ?out' = take (t * n) out @ row"
    using Cons.prems(2) lr by (simp add: algebra_simps)
  moreover have "int (Suc t) = int t + 1" by simp
  ultimately show ?case using ts by (simp del: of_nat_Suc)
qed

lemma flattenMel_uniform:
  assumes "\<forall>row \<in> set rows. length row = n"
  shows "flattenMel rows (int n) = Inr (concat rows)"
proof -
  have "flattenLoop rows (int n) (int 0) (replicate (length rows * n) (Fin 0))
        = Inr (take (0 * n) (replicate (length rows * n) (Fin 0)) @ concat rows)"
    by (rule flattenLoop_uniform[OF assms]) simp
  moreover have "int (length rows) * int n = int (length rows * n)" by simp
  then have "\<not> int (length rows) * int n < 0"
    and "nat (int (length rows) * int n) = length rows * n"
    by (simp_all only: of_nat_less_0_iff nat_int not_False_eq_True)
  ultimately show ?thesis by (simp add: flattenMel_def del: of_nat_mult)
qed

lemma js_slice_map: "js_slice (map f xs) b e = map f (js_slice xs b e)"
  by (simp add: js_slice_def Let_def take_map drop_map)

lemma js_slice_length_le:
  "0 \<le> b \<Longrightarrow> 0 \<le> n \<Longrightarrow> length (js_slice xs b (b + n)) \<le> nat n"
  by (auto simp: js_slice_def Let_def rel_index_def)

lemma js_slice_all: "int (length xs) \<le> n \<Longrightarrow> js_slice xs 0 n = xs"
  by (auto simp: js_slice_def Let_def rel_index_def)

lemma framingPrimitive_unit:
  "framingPrimitive sr xs nfft wl 1 fmin fmax 1 tdb = Inr (map (\<lambda>x. [x]) xs)"
proof -
  have "map (\<lambda>i. [xs ! i]) [0..<length xs] = map (\<lambda>x. [x]) (map ((!) xs) [0..<length xs])"
    by simp
  then show ?thesis by (simp add: framingPrimitive_def map_nth)
qed

lemma populateTiles_single:
  assumes "0 < frames seg" "frames seg \<le> TILE_FRAMES"
    and "flattenMel (js_slice usable 0 (frames seg)) (n_mels p) = Inr flat"
  shows "populateTiles f seg p usable 0 cache
         = (Inr (), cache(tileKey f (startFrame seg) (frames seg) p \<mapsto> flat))"
proof -
  have m: "min TILE_FRAMES (frames seg) = frames seg" using assms(2) by simp
  have "populateTiles f seg p usable (frames seg)
          (cache(tileKey f (startFrame seg) (frames seg) p \<mapsto> flat))
        = (Inr (), cache(tileKey f (startFrame seg) (frames seg) p \<mapsto> flat))"
    by (subst populateTiles.simps) simp
  then show ?thesis using assms(1,3) m by (subst populateTiles.simps) simp
qed

text \<open>
  A segment of at most one tile, computed by \<open>framingPrimitive\<close> with hop 1 and one mel
  band: the tile holds the samples that \<^verbatim>\<open>usable\<close> selects.
\<close>

lemma computeSegment_unit:
  assumes "pcmStore st f = Some (sr, pcm)" "hop_length p = 1" "n_mels p = 1" "0 \<le> n_fft p"
    and "0 < frames seg" "frames seg \<le> TILE_FRAMES"
  shows "computeSegmentAndPopulateTiles framingPrimitive f seg p st
         = (Inr (), st\<lparr>primCalls := primCalls st + 1,
                        melTileCache := (melTileCache st)
                          (tileKey f (startFrame seg) (frames seg) p \<mapsto>
                             js_slice (js_slice pcm (max 0 (startFrame seg - n_fft p))
                                          (min (int (length pcm)) (startFrame seg + frames seg + n_fft p)))
                                      (n_fft p) (n_fft p + frames seg))\<rparr>)"
proof -
  let ?slice = "js_slice pcm (max 0 (startFrame seg - n_fft p))
                  (min (int (length pcm)) (startFrame seg + frames seg + n_fft p))"
  let ?u = "js_slice ?slice (n_fft p) (n_fft p + frames seg)"
  have le: "int (length (map (\<lambda>x. [x]) ?u)) \<le> frames seg"
    using js_slice_length_le[of "n_fft p" "frames seg" ?slice] assms(4,5) by simp
  have "flattenMel (map (\<lambda>x. [x]) ?u) (int 1) = Inr (concat (map (\<lambda>x. [x]) ?u))"
    by (rule flattenMel_uniform) simp
  then have fl: "flattenMel (js_slice (map (\<lambda>x. [x]) ?u) 0 (frames seg)) (n_mels p) = Inr ?u"
    using js_slice_all[OF le] assms(3) by simp
  note pt = populateTiles_single[OF assms(5,6) fl]
  show ?thesis
    using assms(1-3) pt
    by (simp add: computeSegmentAndPopulateTiles_def Let_def framingPrimitive_unit js_slice_map)
qed

lemma render_snd:
  "map_option snd (render prim f p st)
   = map_option snd (assembleWindowMel prim f p (st\<lparr>wasmReady := True\<rparr>))"
  by (simp add: render_def Let_def split: option.splits sum.splits)


lemma unit_params_sel [simp]:
  "hop_length (unit_params t w) = 1" "n_mels (unit_params t w) = 1" "n_fft (unit_params t w) = 1"
  "sampleRate (unit_params t w) = 1" "t0 (unit_params t w) = t" "windowDuration (unit_params t w) = w"
  by (simp_all add: unit_params_def)

lemma loaded_sel [simp]:
  "pcmStore (loaded pcm) = [''a'' \<mapsto> (1, pcm)]" "melTileCache (loaded pcm) = Map.empty"
  "primCalls (loaded pcm) = 0" "wasmReady (loaded pcm) = False"
  by (simp_all add: loaded_def init_worker_def)

subsection \<open>Invocations of the primitive\<close>
























subsection \<open>Concrete runs\<close>

lemma set_pcm_loaded: "onmessage prim (SetPcm ''a'' 1 pcm) init_worker = Some (None, loaded pcm)"
  by (simp add: onmessage_def loaded_def init_worker_def)

lemma tileKey_unit: "tileKey f s n (unit_params t w) = tileKey f s n (unit_params 0 0)"
  by (simp add: tileKey_def unit_params_def)

lemma assemble_short:
  "assembleWindowMel framingPrimitive ''a'' (unit_params 2 10) ((loaded short_pcm)\<lparr>wasmReady := True\<rparr>)
   = Some (Inr ([Fin 2, Fin 3, Fin 4], 10), warm)"
proof -
  let ?p = "unit_params 2 10"
  let ?seg = "\<lparr>startFrame = 2, frames = 10\<rparr>"
  let ?st = "(loaded short_pcm)\<lparr>wasmReady := True\<rparr>"
  have ffw: "framesForWindow ?p = Some (2, 11)" by (simp add: framesForWindow_def)
  have needed: "neededTiles 2 11 = [?seg]"
    by (simp add: neededTiles_step neededTiles_done TILE_FRAMES_def)
  have cs: "computeSegmentAndPopulateTiles framingPrimitive ''a'' ?seg ?p ?st = (Inr (), warm)"
    by (subst computeSegment_unit[where sr=1 and pcm=short_pcm])
       (simp_all add: TILE_FRAMES_def js_slice_def rel_index_def short_pcm_def warm_def)
  show ?thesis
    by (simp add: assembleWindowMel_def ffw analyzeTiles_def Let_def needed isCached_def cs
        concatTiles_def warm_def)
qed



text \<open>
  Claim C3, evaluated where the window runs past the end of the samples. Five samples
  are loaded and ten frames from frame 2 are requested, one sample per frame, one mel
  band. The assembler returns the frame count 10 with a buffer of 3 values, and the tile
  stored under the key that declares 10 frames holds 3 values, not \<open>10 \<times> n_mels = 10\<close>.
\<close>

theorem C3_short_tile:
  "assembleWindowMel framingPrimitive ''a'' (unit_params 2 10) ((loaded short_pcm)\<lparr>wasmReady := True\<rparr>)
     = Some (Inr ([Fin 2, Fin 3, Fin 4], 10), warm)
   \<and> melTileCache warm (tileKey ''a'' 2 10 (unit_params 2 10)) = Some [Fin 2, Fin 3, Fin 4]
   \<and> length [Fin 2, Fin 3, Fin 4] \<noteq> nat (10 * n_mels (unit_params 2 10))"
  using assemble_short by (simp add: warm_def)


theorem C10_set_pcm_keeps_cache_witness:
  "onmessage framingPrimitive (SetPcm ''a'' 1 (ramp 7)) warm
     = Some (None, warm\<lparr>pcmStore := [''a'' \<mapsto> (1, ramp 7)]\<rparr>)
   \<and> assembleWindowMel framingPrimitive ''a'' (unit_params 2 10)
        (warm\<lparr>pcmStore := [''a'' \<mapsto> (1, ramp 7)]\<rparr>)
     = Some (Inr ([Fin 2, Fin 3, Fin 4], 10), warm\<lparr>pcmStore := [''a'' \<mapsto> (1, ramp 7)]\<rparr>)"
proof -
  have a: "onmessage framingPrimitive (SetPcm ''a'' 1 (ramp 7)) warm
     = Some (None, warm\<lparr>pcmStore := [''a'' \<mapsto> (1, ramp 7)]\<rparr>)"
    by (simp add: onmessage_def warm_def)
  from C10_set_pcm_keeps_cache[OF a] assemble_short show ?thesis using a by blast
qed


subsection \<open>Runs over more than one tile\<close>

lemma js_slice_upt:
  "b \<le> e \<Longrightarrow> a + e \<le> n \<Longrightarrow> js_slice [a..<n] (int b) (int e) = [a + b..<a + e]"
  by (simp add: js_slice_def rel_index_def Let_def)

lemma flattenMel_singletons: "flattenMel (map (\<lambda>x. [x]) xs) 1 = Inr xs"
  using flattenMel_uniform[of "map (\<lambda>x. [x]) xs" 1] by simp


lemma ramp_length [simp]: "length (ramp n) = n"
  by (simp add: ramp_def)



lemma unit_params_sel2 [simp]:
  "win_length (unit_params t w) = 1" "f_min (unit_params t w) = 0"
  "f_max (unit_params t w) = 1 / 2" "top_db (unit_params t w) = 80"
  by (simp_all add: unit_params_def)



lemma js_slice_ramp:
  "b \<le> e \<Longrightarrow> e \<le> n \<Longrightarrow> js_slice (ramp n) (int b) (int e) = rampSeg b e"
  using js_slice_upt[of b e 0 n] by (simp add: ramp_def rampSeg_def js_slice_map)

lemma js_slice_rampSeg:
  "b \<le> e \<Longrightarrow> a + e \<le> n \<Longrightarrow> js_slice (rampSeg a n) (int b) (int e) = rampSeg (a + b) (a + e)"
  using js_slice_upt[of b e a n] by (simp add: rampSeg_def js_slice_map)


lemma first_window_state_eq:
  "first_window_state = (loaded (ramp 3000))\<lparr>wasmReady := True, primCalls := 1,
      melTileCache := [tileKey ''a'' 0 1024 (unit_params 0 1024) \<mapsto> rampSeg 1 1025]\<rparr>"
proof -
  let ?p = "unit_params 0 1024"
  let ?seg = "\<lparr>startFrame = 0, frames = 1024\<rparr>"
  let ?st = "(loaded (ramp 3000))\<lparr>wasmReady := True\<rparr>"
  let ?st' = "(loaded (ramp 3000))\<lparr>wasmReady := True, primCalls := 1,
      melTileCache := [tileKey ''a'' 0 1024 ?p \<mapsto> rampSeg 1 1025]\<rparr>"
  have ffw: "framesForWindow ?p = Some (0, 1023)" by (simp add: framesForWindow_def)
  have needed: "neededTiles 0 1023 = [?seg]"
    by (simp add: neededTiles_step neededTiles_done TILE_FRAMES_def)
  have sl: "js_slice (js_slice (ramp 3000) 0 1025) 1 1025 = rampSeg 1 1025"
    using js_slice_ramp[of 0 1025 3000] js_slice_rampSeg[of 1 1025 0 1025] by simp
  have cs: "computeSegmentAndPopulateTiles framingPrimitive ''a'' ?seg ?p ?st = (Inr (), ?st')"
    by (subst computeSegment_unit[where sr=1 and pcm="ramp 3000"])
       (simp_all add: TILE_FRAMES_def sl)
  have "assembleWindowMel framingPrimitive ''a'' ?p ?st = Some (Inr (rampSeg 1 1025, 1024), ?st')"
    by (simp add: assembleWindowMel_def ffw analyzeTiles_def Let_def needed isCached_def cs
        concatTiles_def)
  then have "map_option snd (render framingPrimitive ''a'' ?p (loaded (ramp 3000))) = Some ?st'"
    by (simp add: render_snd)
  then obtain r where "render framingPrimitive ''a'' ?p (loaded (ramp 3000)) = Some (r, ?st')"
    by auto
  then have "onmessage framingPrimitive (Render ''a'' ?p) (loaded (ramp 3000)) = Some (Some r, ?st')"
    by (simp add: onmessage_def)
  then show ?thesis
    by (simp add: first_window_state_def set_pcm_loaded)
qed

text \<open>
  Claim C1, evaluated on a window whose first tile was cached by an earlier render.
  3000 samples \<open>0, 1, 2, \<dots>\<close> are loaded, one sample per frame, \<^verbatim>\<open>n_fft\<close> 1, and the
  primitive returns one row per sample. The frames 0 to 1023 are rendered, then the
  frames 0 to 2047. The second render takes the tile of frames 0 to 1023 from the cache:
  it was computed with the left padding clamped at sample 0 and, one frame still being
  discarded, holds the samples 1 to 1024. The tile of frames 1024 to 2047 is computed
  with a real padding sample and holds the samples 1024 to 2047. The reference, one
  call over the whole range with the same discard, gives the samples 1 to 2048. The
  two buffers differ from index 1024 on.
\<close>

theorem C1_tiles_differ_from_reference:
  "pcmStore first_window_state ''a'' = Some (1, ramp 3000)
   \<and> framesForWindow (unit_params 0 2048) = Some (0, 2047)
   \<and> map_option fst (assembleWindowMel framingPrimitive ''a'' (unit_params 0 2048) first_window_state)
       = Some (Inr (rampSeg 1 1025 @ rampSeg 1024 2048, 2048))
   \<and> windowReference framingPrimitive (ramp 3000) (unit_params 0 2048) 0 2047
       = Inr (rampSeg 1 2049)
   \<and> (rampSeg 1 1025 @ rampSeg 1024 2048) ! 1024 = Fin 1024
   \<and> rampSeg 1 2049 ! 1024 = Fin 1025
   \<and> rampSeg 1 1025 @ rampSeg 1024 2048 \<noteq> rampSeg 1 2049"
proof -
  let ?p = "unit_params 0 2048"
  let ?seg = "\<lparr>startFrame = 1024, frames = 1024\<rparr>"
  let ?k1 = "tileKey ''a'' 0 1024 (unit_params 0 1024)"
  let ?st = "(loaded (ramp 3000))\<lparr>wasmReady := True, primCalls := 1,
      melTileCache := [?k1 \<mapsto> rampSeg 1 1025]\<rparr>"
  let ?st' = "?st\<lparr>primCalls := 2,
      melTileCache := [?k1 \<mapsto> rampSeg 1 1025, tileKey ''a'' 1024 1024 ?p \<mapsto> rampSeg 1024 2048]\<rparr>"
  have ffw: "framesForWindow ?p = Some (0, 2047)" by (simp add: framesForWindow_def)
  have needed: "neededTiles 0 2047 = [\<lparr>startFrame = 0, frames = 1024\<rparr>, ?seg]"
    by (simp add: neededTiles_step neededTiles_done TILE_FRAMES_def)
  have k: "tileKey ''a'' 0 1024 ?p = ?k1" "tileKey ''a'' 1024 1024 ?p \<noteq> ?k1"
    by (simp_all add: tileKey_def)
  have sl: "js_slice (js_slice (ramp 3000) 1023 2049) 1 1025 = rampSeg 1024 2048"
    using js_slice_ramp[of 1023 2049 3000] js_slice_rampSeg[of 1 1025 1023 2049] by simp
  have cs: "computeSegmentAndPopulateTiles framingPrimitive ''a'' ?seg ?p ?st = (Inr (), ?st')"
    by (subst computeSegment_unit[where sr=1 and pcm="ramp 3000"])
       (simp_all add: TILE_FRAMES_def sl)
  have asm: "assembleWindowMel framingPrimitive ''a'' ?p ?st
       = Some (Inr (rampSeg 1 1025 @ rampSeg 1024 2048, 2048), ?st')"
    using k
    by (simp add: assembleWindowMel_def ffw analyzeTiles_def Let_def needed isCached_def
        cs[simplified] concatTiles_def)
  have rows: "js_slice (js_slice (map (\<lambda>x. [x]) (ramp 3000)) 0 2049) 1 2049
              = map (\<lambda>x. [x]) (rampSeg 1 2049)"
    using js_slice_ramp[of 0 2049 3000] js_slice_rampSeg[of 1 2049 0 2049]
    by (simp add: js_slice_map)
  have ref: "windowReference framingPrimitive (ramp 3000) ?p 0 2047 = Inr (rampSeg 1 2049)"
    by (simp add: windowReference_def framingPrimitive_unit js_slice_map[symmetric] rows
        flattenMel_singletons)
  have n1: "(rampSeg 1 1025 @ rampSeg 1024 2048) ! 1024 = Fin 1024"
    by (simp add: rampSeg_def nth_append del: upt_rec_numeral)
  have n2: "rampSeg 1 2049 ! 1024 = Fin 1025"
    by (simp add: rampSeg_def del: upt_rec_numeral)
  have "rampSeg 1 1025 @ rampSeg 1024 2048 \<noteq> rampSeg 1 2049"
    using n1 n2 by (metis jsnum.inject numeral_eq_iff of_nat_numeral of_nat_eq_iff
        semiring_norm(85) semiring_norm(87) semiring_norm(88) semiring_norm(89))
  then show ?thesis
    using asm ref ffw n1 n2 by (simp add: first_window_state_eq)
qed

subsection \<open>The display mapping and whole renders\<close>

lemma clamp01_Fin: "clamp01 (Fin x) = Fin (clampReal x)"
  by (auto simp: clamp01_def js_min_def js_max_def clampReal_def)

lemma clamp01_cases: "clamp01 x = NaN \<or> (\<exists>r. clamp01 x = Fin r \<and> 0 \<le> r \<and> r \<le> 1)"
  by (cases x) (auto simp: clamp01_def js_min_def js_max_def)

text \<open>
  The index of the 58th percentile among 50 values, \<^verbatim>\<open>Math.floor((58 / 100) * 50)\<close>: the
  quotient and the product are doubles and the index is 28.
\<close>

lemma percentile_index_example:
  "js_floor (js_mul (js_div (Fin 58) (Fin 100)) (Fin 50)) = Fin 28"
proof -
  have a: "fl (58 / 100) = 5224175567749775 / 9007199254740992"
    using fl_eval_frac[of "- 1" "58 / 100"] by (simp add: rne_def powr_minus)
  have b: "fl (5224175567749775 / 9007199254740992 * 50) = 8162774324609023 / 281474976710656"
    using fl_eval_frac[of 4 "5224175567749775 / 9007199254740992 * 50"] by (simp add: rne_def)
  have c: "fl64 (58 / 100) = Fin (5224175567749775 / 9007199254740992)"
    unfolding fl64_def a by simp
  have d: "fl64 (5224175567749775 / 9007199254740992 * 50) = Fin (8162774324609023 / 281474976710656)"
    unfolding fl64_def b by simp
  have "js_div (Fin 58) (Fin 100) = Fin (5224175567749775 / 9007199254740992)"
    unfolding js_div.simps c by simp
  then have "js_mul (js_div (Fin 58) (Fin 100)) (Fin 50) = Fin (8162774324609023 / 281474976710656)"
    by (simp only: js_mul.simps d)
  then show ?thesis by simp
qed

lemma toInt32_byte:
  assumes "0 \<le> r" "r \<le> 1"
  shows "toInt32 (js_mul (Fin r) (Fin 255)) = \<lfloor>fl (r * 255)\<rfloor>"
    and "0 \<le> \<lfloor>fl (r * 255)\<rfloor>" and "\<lfloor>fl (r * 255)\<rfloor> \<le> 255"
proof -
  have x: "0 \<le> r * 255" "r * 255 \<le> of_int 255" using assms by simp_all
  have a: "0 \<le> fl (r * 255)" using x(1) by (rule fl_nonneg)
  have b: "fl (r * 255) \<le> 255" using fl_le_int[OF x] by simp
  have "\<bar>fl (r * 255)\<bar> < 2 ^ 1024" using a b by simp
  then have f: "js_mul (Fin r) (Fin 255) = Fin (fl (r * 255))" by (simp add: fl64_Fin)
  show lo: "0 \<le> \<lfloor>fl (r * 255)\<rfloor>" using a by simp
  show hi: "\<lfloor>fl (r * 255)\<rfloor> \<le> 255" using b by (simp add: floor_le_iff)
  show "toInt32 (js_mul (Fin r) (Fin 255)) = \<lfloor>fl (r * 255)\<rfloor>"
    unfolding f using a lo hi by (simp add: toInt32_def trunc_def)
qed

lemma colorIndex_cases:
  "(clampedValue v smin smax gamma c b = NaN \<and> colorIndex v smin smax gamma c b = 0)
   \<or> (\<exists>r. clampedValue v smin smax gamma c b = Fin r \<and> 0 \<le> r \<and> r \<le> 1
          \<and> colorIndex v smin smax gamma c b = \<lfloor>fl (r * 255)\<rfloor>)"
proof -
  have cv: "\<exists>y. clampedValue v smin smax gamma c b = clamp01 y"
    unfolding clampedValue_def Let_def by blast
  then obtain y where y: "clampedValue v smin smax gamma c b = clamp01 y" by blast
  show ?thesis
    using clamp01_cases[of y] y toInt32_byte(1)
    by (auto simp: colorIndex_def toInt32_def)
qed

lemma concat_uniform_length:
  "\<forall>x \<in> set xss. length x = m \<Longrightarrow> length (concat xss) = length xss * m"
  by (induction xss) auto

lemma concat_uniform_nth:
  "\<forall>x \<in> set xss. length x = m \<Longrightarrow> i < length xss \<Longrightarrow> k < m \<Longrightarrow>
   concat xss ! (i * m + k) = xss ! i ! k"
proof (induction xss arbitrary: i)
  case Nil
  then show ?case by simp
next
  case (Cons x xss)
  show ?case
  proof (cases i)
    case 0
    then show ?thesis using Cons.prems by (simp add: nth_append)
  next
    case (Suc j)
    then have "concat xss ! (j * m + k) = xss ! j ! k" using Cons by simp
    moreover have "Suc j * m + k = m + (j * m + k)" by simp
    ultimately show ?thesis using Cons.prems Suc by (simp add: nth_append del: mult_Suc)
  qed
qed

lemma lutEntry_length [simp]: "length (lutEntry i) = 4"
  by (simp add: lutEntry_def Let_def)

lemma viridisLUT_length: "length viridisLUT = 1024"
proof -
  have "length viridisLUT = length (map (\<lambda>i. lutEntry (int i)) [0..<256]) * 4"
    unfolding viridisLUT_def by (rule concat_uniform_length) auto
  then show ?thesis by (simp del: upt_rec_numeral)
qed

lemma lut_at_entry:
  assumes "0 \<le> i" "i < 256" "k < 4"
  shows "lut_at (i * 4 + int k) = lutEntry i ! k"
proof -
  let ?xss = "map (\<lambda>i. lutEntry (int i)) [0..<256]"
  have n: "nat i < length ?xss" using assms by (simp del: upt_rec_numeral)
  have "viridisLUT ! (nat i * 4 + k) = ?xss ! nat i ! k"
    unfolding viridisLUT_def by (rule concat_uniform_nth[OF _ n assms(3)]) auto
  moreover have ni: "nat i < 256" using assms by linarith
  then have "[0..<256] ! nat i = nat i" by (simp del: upt_rec_numeral)
  then have "?xss ! nat i = lutEntry i" using assms ni by (simp del: upt_rec_numeral)
  moreover have "nat (i * 4 + int k) = nat i * 4 + k" using assms by (simp add: nat_add_distrib nat_mult_distrib)
  moreover have "0 \<le> i * 4 + int k \<and> i * 4 + int k < 1024" using assms by simp
  ultimately show ?thesis by (simp add: lut_at_def viridisLUT_length)
qed

lemma lutEntry_0: "lutEntry 0 = [68, 1, 84, 255]"
  by (simp add: lutEntry_def Let_def mix_def js_round_def clampByte_def)


lemma lut_at_0: "lut_at 0 = 68" "lut_at 1 = 1" "lut_at 2 = 84"
  using lut_at_entry[of 0 0] lut_at_entry[of 0 1] lut_at_entry[of 0 2] by (simp_all add: lutEntry_0)


text \<open>
  Claim C9, as amended. For all inputs (any spectral value, any bounds, any gamma,
  contrast and brightness, finite or not) the colour index lies in \<open>[0, 255]\<close>, so the
  three reads of the 1024-entry table are in bounds, and every pixel written has four
  bytes, the last being 255. The display intensity lies in \<open>[0, 1]\<close> or is \<open>NaN\<close>, and a
  \<open>NaN\<close> intensity gives the index 0.
\<close>

theorem C9_index_in_range:
  "0 \<le> colorIndex v smin smax gamma c b \<and> colorIndex v smin smax gamma c b \<le> 255
   \<and> 0 \<le> colorIndex v smin smax gamma c b * 4
   \<and> colorIndex v smin smax gamma c b * 4 + 3 < int (length viridisLUT)
   \<and> length (pixelAt mel height smin smax gamma p i j) = 4
   \<and> pixelAt mel height smin smax gamma p i j ! 3 = 255
   \<and> (clampedValue v smin smax gamma c b = NaN
        \<or> (\<exists>r. clampedValue v smin smax gamma c b = Fin r \<and> 0 \<le> r \<and> r \<le> 1))
   \<and> (clampedValue v smin smax gamma c b = NaN \<longrightarrow> colorIndex v smin smax gamma c b = 0)"
proof -
  have "0 \<le> colorIndex v smin smax gamma c b \<and> colorIndex v smin smax gamma c b \<le> 255"
    using colorIndex_cases[of v smin smax gamma c b] toInt32_byte(2,3) by auto
  moreover have "clampedValue v smin smax gamma c b = NaN
        \<or> (\<exists>r. clampedValue v smin smax gamma c b = Fin r \<and> 0 \<le> r \<and> r \<le> 1)"
    using colorIndex_cases[of v smin smax gamma c b] by auto
  moreover have "clampedValue v smin smax gamma c b = NaN \<longrightarrow> colorIndex v smin smax gamma c b = 0"
    using colorIndex_cases[of v smin smax gamma c b] by auto
  ultimately show ?thesis by (simp add: viridisLUT_length pixelAt_def Let_def)
qed

text \<open>
  The intensity is \<open>NaN\<close> when the brightness is (an emptied number field of the
  settings dialog is parsed to \<open>NaN\<close>), and also for finite parameters: with a negative
  gamma the power of 0 is \<^verbatim>\<open>Infinity\<close>, and its product with a zero contrast is \<open>NaN\<close>;
  \<^verbatim>\<open>Math.max(0, Math.min(1, NaN))\<close> is \<open>NaN\<close>.
\<close>

theorem C9_intensity_counterexample:
  "clampedValue (Fin 0) (Fin 0) (Fin 1) (Fin 1) (Fin 1) NaN = NaN
   \<and> clampedValue (Fin 0) (Fin 0) (Fin 1) (Fin (- 1)) (Fin 0) (Fin 0) = NaN"
  by (simp add: clampedValue_def Let_def js_sub_def clamp01_def js_min_def js_max_def inf_signed_def)

theorem C9_index_in_range_witness:
  "clampedValue (Fin 0) (Fin 0) (Fin 1) (Fin 1) (Fin 1) NaN = NaN
   \<and> colorIndex (Fin 0) (Fin 0) (Fin 1) (Fin 1) (Fin 1) NaN = 0"
proof -
  have a: "clampedValue (Fin 0) (Fin 0) (Fin 1) (Fin 1) (Fin 1) NaN = NaN"
    by (simp add: clampedValue_def Let_def js_sub_def clamp01_def js_min_def js_max_def)
  from C9_index_in_range[of "Fin 0" "Fin 0" "Fin 1" "Fin 1" "Fin 1" NaN] a
  show ?thesis by blast
qed

lemma js_pow_unit:
  assumes "0 \<le> n" "n \<le> 1" "0 < g"
  shows "js_pow (Fin n) (Fin g) = Fin (fl (n powr g))"
    and "0 \<le> fl (n powr g)" and "fl (n powr g) \<le> 1"
proof -
  have r: "0 \<le> n powr g" "n powr g \<le> 1" using assms by (simp_all add: powr_le1)
  show "0 \<le> fl (n powr g)" "fl (n powr g) \<le> 1" using fl_unit[OF r] by simp_all
  have "fl64 (n powr g) = Fin (fl (n powr g))" using fl64_bounded[of "n powr g" 0] r by simp
  then show "js_pow (Fin n) (Fin g) = Fin (fl (n powr g))" using assms by auto
qed

lemma clampReal_range: "0 \<le> clampReal x \<and> clampReal x \<le> 1"
  by (simp add: clampReal_def)

lemma js_round_floor: "\<lfloor>x\<rfloor> \<le> js_round x \<and> js_round x \<le> \<lfloor>x\<rfloor> + 1"
  unfolding js_round_def by linarith

text \<open>
  Claim C6, as amended. The spectral values are single-precision numbers, so \<open>v\<close>,
  \<open>smin\<close> and \<open>smax\<close> are at most \<open>2 ^ 128\<close> in modulus and two different ones are at
  least \<open>2 ^ - 149\<close> apart. For such values with \<open>smin < smax\<close>, a positive gamma, and a
  contrast and a brightness of modulus at most \<open>2 ^ 128\<close>, the code computes the
  specification's \<open>norm\<close>, \<open>g\<close> and \<open>adjusted\<close>, in double arithmetic; the colour index
  is the double \<open>adjusted * 255\<close> truncated, not rounded: \<^verbatim>\<open>(clampedValue * 255) | 0\<close>. It is
  the rounded index or the one below it.
\<close>

theorem C6_index_truncates:
  assumes v: "\<bar>v\<bar> \<le> 2 ^ 128" and lo: "\<bar>smin\<bar> \<le> 2 ^ 128" and hi: "\<bar>smax\<bar> \<le> 2 ^ 128"
    and gap: "1 / 2 ^ 149 \<le> smax - smin" and g: "0 < g"
    and c: "\<bar>c\<bar> \<le> 2 ^ 128" and b: "\<bar>b\<bar> \<le> 2 ^ 128"
  shows "clampedValue (Fin v) (Fin smin) (Fin smax) (Fin g) (Fin c) (Fin b)
           = Fin (specAdjusted v smin smax g c b)
         \<and> colorIndex (Fin v) (Fin smin) (Fin smax) (Fin g) (Fin c) (Fin b)
           = \<lfloor>fl (specAdjusted v smin smax g c b * 255)\<rfloor>
         \<and> colorIndex (Fin v) (Fin smin) (Fin smax) (Fin g) (Fin c) (Fin b)
           \<le> specIndex v smin smax g c b
         \<and> specIndex v smin smax g c b
           \<le> colorIndex (Fin v) (Fin smin) (Fin smax) (Fin g) (Fin c) (Fin b) + 1"
proof -
  define D1 where "D1 = fl (v - smin)"
  define D2 where "D2 = fl (smax - smin)"
  define Q where "Q = fl (D1 / D2)"
  define N where "N = clampReal Q"
  define G where "G = fl (N powr g)"
  define S1 where "S1 = fl (G - 1 / 2)"
  define S2 where "S2 = fl (S1 * c)"
  define S3 where "S3 = fl (S2 + 1 / 2)"
  define S4 where "S4 = fl (S3 + b)"
  have p129: "(2::real) ^ 129 = 2 * 2 ^ 128" and p128: "(2::real) ^ 128 = 2 * 2 ^ 127"
    by simp_all
  have e1: "\<bar>v - smin\<bar> \<le> 2 ^ 129" using v lo unfolding p129 by linarith
  have j1: "js_sub (Fin v) (Fin smin) = Fin D1"
    unfolding D1_def using e1 by (rule js_sub_Fin) simp
  have b1: "\<bar>D1\<bar> \<le> 2 ^ 129" unfolding D1_def using e1 by (rule fl_abs_le_pow)
  have e2: "\<bar>smax - smin\<bar> \<le> 2 ^ 129" using hi lo unfolding p129 by linarith
  have j2: "js_sub (Fin smax) (Fin smin) = Fin D2"
    unfolding D2_def using e2 by (rule js_sub_Fin) simp
  have b2: "1 / 2 ^ 149 \<le> D2" unfolding D2_def using gap by (rule fl_ge_inv_pow) simp
  have D2pos: "0 < D2"
  proof -
    have "(0::real) < 1 / 2 ^ 149" by simp
    then show ?thesis using b2 by (rule less_le_trans)
  qed
  have e3: "\<bar>D1 / D2\<bar> \<le> 2 ^ 278"
  proof -
    have "\<bar>D1 / D2\<bar> = \<bar>D1\<bar> / D2" using D2pos by simp
    also have "\<dots> \<le> 2 ^ 129 / (1 / 2 ^ 149)" using b1 b2 by (intro frac_le) auto
    also have "\<dots> = 2 ^ 278" by simp
    finally show ?thesis .
  qed
  have D2nz: "D2 \<noteq> 0" using D2pos by simp
  have j3: "js_div (Fin D1) (Fin D2) = Fin Q"
    unfolding Q_def using D2nz e3 by (rule js_div_Fin) simp
  have Nr: "0 \<le> N" "N \<le> 1" using clampReal_range[of Q] by (simp_all add: N_def)
  have j5: "js_pow (Fin N) (Fin g) = Fin G" and Gr: "0 \<le> G" "G \<le> 1"
    unfolding G_def using js_pow_unit[OF Nr g] by simp_all
  have e6: "\<bar>G - 1 / 2\<bar> \<le> 1 / 2" using Gr by linarith
  have e6': "\<bar>G - 1 / 2\<bar> \<le> 2 ^ 0" using e6 by simp
  have j6: "js_sub (Fin G) (Fin (1 / 2)) = Fin S1"
    unfolding S1_def using e6' by (rule js_sub_Fin) simp
  have b6: "\<bar>S1\<bar> \<le> 1 / 2" unfolding S1_def using e6 by (rule fl_abs_le_half)
  have e7: "\<bar>S1 * c\<bar> \<le> 2 ^ 127"
  proof -
    have "\<bar>S1 * c\<bar> = \<bar>S1\<bar> * \<bar>c\<bar>" by (rule abs_mult)
    also have "\<dots> \<le> 1 / 2 * 2 ^ 128" using b6 c by (intro mult_mono) auto
    also have "\<dots> = 2 ^ 127" by simp
    finally show ?thesis .
  qed
  have j7: "js_mul (Fin S1) (Fin c) = Fin S2"
    unfolding S2_def using e7 by (rule js_mul_Fin) simp
  have b7: "\<bar>S2\<bar> \<le> 2 ^ 127" unfolding S2_def using e7 by (rule fl_abs_le_pow)
  have one: "(1::real) \<le> 2 ^ 127" by simp
  have e8: "\<bar>S2 + 1 / 2\<bar> \<le> 2 ^ 128" using b7 one unfolding p128 by linarith
  have j8: "js_add (Fin S2) (Fin (1 / 2)) = Fin S3"
    unfolding S3_def using e8 by (rule js_add_Fin) simp
  have b8: "\<bar>S3\<bar> \<le> 2 ^ 128" unfolding S3_def using e8 by (rule fl_abs_le_pow)
  have e9: "\<bar>S3 + b\<bar> \<le> 2 ^ 129" using b8 b unfolding p129 by linarith
  have j9: "js_add (Fin S3) (Fin b) = Fin S4"
    unfolding S4_def using e9 by (rule js_add_Fin) simp
  have spec: "specAdjusted v smin smax g c b = clampReal S4"
    by (simp add: specAdjusted_def Let_def S4_def S3_def S2_def S1_def G_def N_def Q_def
        D2_def D1_def)
  have cv: "clampedValue (Fin v) (Fin smin) (Fin smax) (Fin g) (Fin c) (Fin b)
            = Fin (specAdjusted v smin smax g c b)"
    unfolding clampedValue_def Let_def j1 j2 j3 spec
    by (simp add: clamp01_Fin N_def[symmetric] j5 j6 j7 j8 j9
        del: js_pow.simps js_add.simps js_mul.simps)
  have r: "0 \<le> specAdjusted v smin smax g c b" "specAdjusted v smin smax g c b \<le> 1"
    unfolding spec using clampReal_range[of S4] by simp_all
  have ci: "colorIndex (Fin v) (Fin smin) (Fin smax) (Fin g) (Fin c) (Fin b)
            = \<lfloor>fl (specAdjusted v smin smax g c b * 255)\<rfloor>"
    unfolding colorIndex_def cv using r by (rule toInt32_byte(1))
  show ?thesis
    unfolding ci specIndex_def
    using cv js_round_floor[of "fl (specAdjusted v smin smax g c b * 255)"] by simp
qed

text \<open>
  The mapping at \<open>v = 1\<close> between \<open>smin = 0\<close> and \<open>smax = 15\<close>, with neutral display
  parameters: \<open>adjusted\<close> is the double just below \<open>1 / 15\<close>, its product with 255 the
  double just below 17.
\<close>

lemma specAdjusted_fifteenth:
  "specAdjusted 1 0 15 1 1 0 = 300239975158033 / 4503599627370496"
proof -
  have q: "fl (1 / 15) = 4803839602528529 / 72057594037927936"
    using fl_eval_frac[of "- 4" "1 / 15"] by (simp add: rne_def powr_minus)
  have q': "fl (4803839602528529 / 72057594037927936) = 4803839602528529 / 72057594037927936"
    using fl_dyadic[of 4803839602528529 56] by simp
  have s1: "fl (4803839602528529 / 72057594037927936 - 1 / 2)
            = - (1951559838527215 / 4503599627370496)"
    using fl_eval_frac[of "- 2" "4803839602528529 / 72057594037927936 - 1 / 2"]
    by (simp add: rne_def powr_minus)
  have s2: "fl (- (1951559838527215 / 4503599627370496) * 1)
            = - (1951559838527215 / 4503599627370496)"
    using fl_dyadic[of "- 1951559838527215" 52] by simp
  have s3: "fl (- (1951559838527215 / 4503599627370496) + 1 / 2)
            = 300239975158033 / 4503599627370496"
    using fl_dyadic[of 300239975158033 52] by simp
  have s4: "fl (300239975158033 / 4503599627370496 + 0) = 300239975158033 / 4503599627370496"
    using fl_dyadic[of 300239975158033 52] by simp
  have n: "clampReal (4803839602528529 / 72057594037927936)
           = 4803839602528529 / 72057594037927936"
    by (simp add: clampReal_def)
  have a: "clampReal (300239975158033 / 4503599627370496) = 300239975158033 / 4503599627370496"
    by (simp add: clampReal_def)
  have d: "fl (1 - 0) = 1" "fl (15 - 0) = 15" by simp_all
  have pw: "(4803839602528529 / 72057594037927936 :: real) powr 1
            = 4803839602528529 / 72057594037927936"
    by simp
  show ?thesis
    unfolding specAdjusted_def Let_def d q n pw q' s1 s2 s3 s4 a ..
qed

lemma fl_seventeen:
  "fl (300239975158033 / 4503599627370496 * 255) = 4785074604081151 / 281474976710656"
  using fl_eval_frac[of 4 "300239975158033 / 4503599627370496 * 255"]
  by (simp add: rne_def)

text \<open>
  The mapping at \<open>v = smin\<close> with the contrast 0.3 and the brightness \<open>-0.15\<close>, as doubles:
  \<open>adjusted\<close> is the double just below 0.2, its product with 255 a double just below 51.
\<close>

lemma fl_three_tenths: "fl (3 / 10) = 5404319552844595 / 18014398509481984"
  using fl_eval_frac[of "- 2" "3 / 10"] by (simp add: rne_def powr_minus)

lemma fl_fifteen_hundredths: "fl (15 / 100) = 5404319552844595 / 36028797018963968"
  using fl_eval_frac[of "- 3" "15 / 100"] by (simp add: rne_def powr_minus)

lemma specAdjusted_dim:
  "specAdjusted 0 0 1 1 (5404319552844595 / 18014398509481984)
     (- (5404319552844595 / 36028797018963968)) = 7205759403792793 / 36028797018963968"
proof -
  have d: "fl (0 - 0) = 0" "fl (1 - 0) = 1" "fl (0 / 1) = 0" by simp_all
  have n: "clampReal 0 = 0" by (simp add: clampReal_def)
  have pw: "fl ((0::real) powr 1) = 0" by simp
  have s1: "fl (0 - 1 / 2) = - (1 / 2)" by simp
  have s2: "fl (- (1 / 2) * (5404319552844595 / 18014398509481984))
            = - (5404319552844595 / 36028797018963968)"
    using fl_dyadic[of "- 5404319552844595" 55] by simp
  have s3: "fl (- (5404319552844595 / 36028797018963968) + 1 / 2)
            = 3152519739159347 / 9007199254740992"
    using fl_eval_frac[of "- 2" "- (5404319552844595 / 36028797018963968) + 1 / 2"]
    by (simp add: rne_def powr_minus)
  have s4: "fl (3152519739159347 / 9007199254740992 + - (5404319552844595 / 36028797018963968))
            = 7205759403792793 / 36028797018963968"
    using fl_dyadic[of 7205759403792793 55] by simp
  have a: "clampReal (7205759403792793 / 36028797018963968) = 7205759403792793 / 36028797018963968"
    by (simp add: clampReal_def)
  show ?thesis
    unfolding specAdjusted_def Let_def d n pw s1 s2 s3 s4 a ..
qed

lemma fl_fifty_one:
  "fl (7205759403792793 / 36028797018963968 * 255) = 7177611906121727 / 140737488355328"
  using fl_eval_frac[of 5 "7205759403792793 / 36028797018963968 * 255"]
  by (simp add: rne_def)

theorem C6_index_truncates_witness:
  "colorIndex (Fin 1) (Fin 0) (Fin 15) (Fin 1) (Fin 1) (Fin 0) = 16
   \<and> specIndex 1 0 15 1 1 0 = 17
   \<and> colorIndex (Fin 0) (Fin 0) (Fin 1) (Fin 1) (Fin (fl (3 / 10))) (Fin (- fl (15 / 100))) = 50
   \<and> specIndex 0 0 1 1 (fl (3 / 10)) (- fl (15 / 100)) = 51"
proof -
  have "colorIndex (Fin 1) (Fin 0) (Fin 15) (Fin 1) (Fin 1) (Fin 0)
        = \<lfloor>fl (specAdjusted 1 0 15 1 1 0 * 255)\<rfloor>"
    using C6_index_truncates[of 1 0 15 1 1 0] by simp
  moreover have "\<lfloor>fl (specAdjusted 1 0 15 1 1 0 * 255)\<rfloor> = 16"
    unfolding specAdjusted_fifteenth fl_seventeen by simp
  moreover have "specIndex 1 0 15 1 1 0 = 17"
    unfolding specIndex_def specAdjusted_fifteenth fl_seventeen by (simp add: js_round_def)
  moreover have "colorIndex (Fin 0) (Fin 0) (Fin 1) (Fin 1)
          (Fin (5404319552844595 / 18014398509481984))
          (Fin (- (5404319552844595 / 36028797018963968)))
        = \<lfloor>fl (specAdjusted 0 0 1 1 (5404319552844595 / 18014398509481984)
                 (- (5404319552844595 / 36028797018963968)) * 255)\<rfloor>"
    using C6_index_truncates[of 0 0 1 1 "5404319552844595 / 18014398509481984"
        "- (5404319552844595 / 36028797018963968)"]
    by simp
  moreover have "\<lfloor>fl (specAdjusted 0 0 1 1 (5404319552844595 / 18014398509481984)
                 (- (5404319552844595 / 36028797018963968)) * 255)\<rfloor> = 50"
    unfolding specAdjusted_dim fl_fifty_one by simp
  moreover have "specIndex 0 0 1 1 (5404319552844595 / 18014398509481984)
                   (- (5404319552844595 / 36028797018963968)) = 51"
    unfolding specIndex_def specAdjusted_dim fl_fifty_one by (simp add: js_round_def)
  ultimately show ?thesis unfolding fl_three_tenths fl_fifteen_hundredths by simp
qed

text \<open>At \<open>adjusted = 0.5\<close> the code gives 127 and rounding gives 128.\<close>

lemma fl_255_half: "fl (255 / 2) = 255 / 2"
  using fl_dyadic[of 255 1] by simp

theorem C6_round_counterexample:
  "colorIndex (Fin (1 / 2)) (Fin 0) (Fin 1) (Fin 1) (Fin 1) (Fin 0) = 127
   \<and> specIndex (1 / 2) 0 1 1 1 0 = 128"
proof -
  have "clampedValue (Fin (1 / 2)) (Fin 0) (Fin 1) (Fin 1) (Fin 1) (Fin 0) = Fin (1 / 2)"
    by (simp add: clampedValue_def Let_def js_sub_def clamp01_def js_min_def js_max_def)
  then have "colorIndex (Fin (1 / 2)) (Fin 0) (Fin 1) (Fin 1) (Fin 1) (Fin 0) = 127"
    by (simp add: colorIndex_def fl64_def fl_255_half toInt32_def trunc_def)
  moreover have sa: "specAdjusted (1 / 2) 0 1 1 1 0 = 1 / 2"
    by (simp add: specAdjusted_def clampReal_def)
  have "specIndex (1 / 2) 0 1 1 1 0 = 128"
    unfolding specIndex_def sa by (simp add: fl_255_half js_round_def)
  ultimately show ?thesis by simp
qed

lemma invalid_params_sel [simp]:
  "hop_length invalid_params = 1" "n_mels invalid_params = 1" "n_fft invalid_params = 0"
  "sampleRate invalid_params = 1" "t0 invalid_params = 0" "windowDuration invalid_params = 2"
  "f_min invalid_params = 8000" "f_max invalid_params = 100"
  "dynamicGain invalid_params = False" "autoGamma invalid_params = False"
  "gammaValue invalid_params = Fin 1" "contrast invalid_params = Fin 1"
  "brightness invalid_params = Fin 0"
  by (simp_all add: invalid_params_def unit_params_def)

lemma unit_params_display [simp]:
  "dynamicGain (unit_params t w) = False" "autoGamma (unit_params t w) = False"
  "gammaValue (unit_params t w) = Fin 1" "contrast (unit_params t w) = Fin 1"
  "brightness (unit_params t w) = Fin 0"
  by (simp_all add: unit_params_def)

lemma upt_two: "[0..<2] = [0, Suc 0]"
  by (simp add: numeral_2_eq_2)

lemma render_never_placeholder: "render prim f p st \<noteq> Some (placeholder, st')"
proof
  assume r: "render prim f p st = Some (placeholder, st')"
  then obtain a where a: "assembleWindowMel prim f p (st\<lparr>wasmReady := True\<rparr>) = Some (a, st')"
    using render_state by blast
  then obtain F0 F1 where F: "framesForWindow p = Some (F0, F1)"
    by (auto simp: assembleWindowMel_def split: option.splits)
  have le: "F0 \<le> F1" using F by (rule framesForWindow_le)
  show False
  proof (cases a)
    case (Inl e)
    then show ?thesis using r a by (simp add: render_def placeholder_def)
  next
    case (Inr b)
    then have w: "snd b = F1 - F0 + 1"
      using a F by (auto simp: assembleWindowMel_def Let_def split: sum.splits)
    then have pos: "\<not> snd b \<le> 0" using le by simp
    let ?smin = "fst (gainBounds p (fst b))"
    let ?smax = "snd (gainBounds p (fst b))"
    let ?gamma = "chooseGamma p (fst b) ?smin ?smax"
    have "snd b = 1 \<and> n_mels p = 1
          \<and> rasterize (fst b) (snd b) (n_mels p) ?smin ?smax ?gamma p = [0, 0, 0, 0]"
      using r a Inr pos
      by (auto simp: render_def Let_def placeholder_def split: if_splits)
    then have e1: "snd b = 1" and e2: "n_mels p = 1"
      and e3: "rasterize (fst b) (snd b) (n_mels p) ?smin ?smax ?gamma p = [0, 0, 0, 0]"
      by blast+
    have d: "rasterize (fst b) 1 1 ?smin ?smax ?gamma p = [0, 0, 0, 0]"
      using e3 unfolding e1 e2 .
    have "rasterize (fst b) 1 1 ?smin ?smax ?gamma p ! 3 = 255"
      by (simp add: rasterize_def pixelAt_def Let_def)
    then show False using d by simp
  qed
qed

text \<open>
  Claim C2, evaluated past the end of the audio. Five samples at 1 Hz are loaded and two
  seconds from \<open>t0 = 100\<close> are requested. The slice is empty, the primitive returns no
  row, the assembled buffer is empty and the frame count is 2. The guard
  \<^verbatim>\<open>!mel || frames <= 0\<close> does not fire and the reply is a full-size \<open>2 \<times> 1\<close> image in the
  colour of index 0, not the placeholder. By \<open>render_never_placeholder\<close> no request at
  all is answered by the placeholder.
\<close>

theorem C2_no_placeholder_past_end:
  "real (length short_pcm) / sampleRate (unit_params 100 2) < t0 (unit_params 100 2)
   \<and> map_option fst (render framingPrimitive ''a'' (unit_params 100 2) (loaded short_pcm))
       = Some (Image 2 1 [68, 1, 84, 255, 68, 1, 84, 255])
   \<and> Image 2 1 [68, 1, 84, 255, 68, 1, 84, 255] \<noteq> placeholder"
proof -
  let ?p = "unit_params 100 2"
  let ?seg = "\<lparr>startFrame = 100, frames = 2\<rparr>"
  let ?st = "(loaded short_pcm)\<lparr>wasmReady := True\<rparr>"
  let ?st' = "?st\<lparr>primCalls := 1, melTileCache := [tileKey ''a'' 100 2 ?p \<mapsto> []]\<rparr>"
  have ffw: "framesForWindow ?p = Some (100, 101)" by (simp add: framesForWindow_def)
  have needed: "neededTiles 100 101 = [?seg]"
    by (simp add: neededTiles_step neededTiles_done TILE_FRAMES_def)
  have cs: "computeSegmentAndPopulateTiles framingPrimitive ''a'' ?seg ?p ?st = (Inr (), ?st')"
    by (subst computeSegment_unit[where sr=1 and pcm=short_pcm])
       (simp_all add: TILE_FRAMES_def js_slice_def rel_index_def short_pcm_def)
  have asm: "assembleWindowMel framingPrimitive ''a'' ?p ?st = Some (Inr ([], 2), ?st')"
    by (simp add: assembleWindowMel_def ffw analyzeTiles_def Let_def needed isCached_def
        cs[simplified] concatTiles_def)
  have gb: "gainBounds ?p [] = (PInf, PInf)"
    by (simp add: gainBounds_def Let_def js_gt_def sortedFinite_def)
  have ci: "colorIndex NaN PInf PInf (Fin 1) (Fin 1) (Fin 0) = 0"
    by (simp add: colorIndex_def clampedValue_def Let_def js_sub_def clamp01_def js_min_def
        js_max_def toInt32_def trunc_def)
  have px: "pixelAt [] 1 PInf PInf (Fin 1) ?p i 0 = [68, 1, 84, 255]" for i
    by (simp add: pixelAt_def Let_def mel_at_def ci lut_at_0)
  have ra: "rasterize [] 2 1 PInf PInf (Fin 1) ?p = [68, 1, 84, 255, 68, 1, 84, 255]"
    by (simp add: rasterize_def px upt_two)
  have "render framingPrimitive ''a'' ?p (loaded short_pcm)
        = Some (Image 2 1 [68, 1, 84, 255, 68, 1, 84, 255], ?st')"
    by (simp add: render_def asm Let_def gb chooseGamma_def ra)
  then show ?thesis by (simp add: short_pcm_def placeholder_def)
qed


subsection \<open>Claim C5\<close>

text \<open>The frame rate of \<open>long_params\<close> and its product with 147.\<close>

lemma fl_long_rate: "fl (48000 / 441) = 7659183039745741 / 70368744177664"
  using fl_eval_frac[of 6 "48000 / 441"] by (simp add: rne_def)

lemma fl_long_rate_reduced: "fl (16000 / 147) = 7659183039745741 / 70368744177664"
  using fl_long_rate by simp

lemma fl_long_product:
  "fl (147 * (7659183039745741 / 70368744177664)) = 8796093022207999 / 549755813888"
  using fl_eval_frac[of 13 "147 * (7659183039745741 / 70368744177664)"] by (simp add: rne_def)

lemma framesForWindow_long: "framesForWindow long_params = Some (15999, 31997)"
proof -
  have "\<lfloor>fl (147 * fl (48000 / 441))\<rfloor> = 15999"
    unfolding fl_long_rate fl_long_product by simp
  then show ?thesis by (simp add: framesForWindow_def long_params_def Let_def)
qed

text \<open>
  At 32000 Hz with hop 256, the double nearest to 4.8 s lies below 4.8, and its product
  with the frame rate 125 is the double 600: the window starts at frame 600.
\<close>

lemma frame_of_4_8:
  "\<lfloor>fl (5404319552844595 / 1125899906842624 * fl (32000 / 256))\<rfloor> = 600"
proof -
  have r: "fl (32000 / 256) = 125" by simp
  have "fl (5404319552844595 / 1125899906842624 * 125) = 600"
    using fl_eval_frac[of 9 "5404319552844595 / 1125899906842624 * 125"] by (simp add: rne_def)
  then show ?thesis unfolding r by simp
qed

text \<open>
  Claim C5. The quotient \<open>sampleRate / hop_length\<close> and its products with \<open>t0\<close> and
  \<open>windowDuration\<close> are doubles, as everywhere in the source. For a request with
  \<^verbatim>\<open>hop_length\<close> other than 0 whose two products are below \<open>2 ^ 52\<close> in modulus (the range
  where doubles add frame indices exactly), the frame range is
  \<open>F0 = \<lfloor>t0 * framesPerSecond\<rfloor>\<close>, \<open>F1 = F0 + max 1 \<lfloor>windowDuration * framesPerSecond\<rfloor> - 1\<close>,
  and the needed tiles of \<^verbatim>\<open>analyzeTiles\<close> partition \<open>[F0, F1]\<close>: the first starts at \<open>F0\<close>,
  their frames in order are exactly \<open>F0, \<dots>, F1\<close>, every tile but the last has
  \<open>TILE_FRAMES = 1024\<close> frames and the last has between 1 and 1024. For 32000 Hz, hop 256,
  \<open>t0 = 0\<close> and 8 s there is one tile, frames 0 to 999.
\<close>

theorem C5_frame_range_and_tiles:
  assumes "hop_length p \<noteq> 0"
    and "\<bar>t0 p * fl (sampleRate p / real_of_int (hop_length p))\<bar> < 2 ^ 52"
    and "\<bar>windowDuration p * fl (sampleRate p / real_of_int (hop_length p))\<bar> < 2 ^ 52"
  shows "\<exists>F0 F1 needed framesPerSecond.
           framesForWindow p = Some (F0, F1)
         \<and> needed = fst (analyzeTiles cache fileId F0 F1 p)
         \<and> framesPerSecond = fl (sampleRate p / real_of_int (hop_length p))
         \<and> F0 = \<lfloor>fl (t0 p * framesPerSecond)\<rfloor>
         \<and> F1 = F0 + max 1 \<lfloor>fl (windowDuration p * framesPerSecond)\<rfloor> - 1
         \<and> needed \<noteq> [] \<and> startFrame (hd needed) = F0
         \<and> concat (map tile_range needed) = [F0..F1]
         \<and> (\<forall>t \<in> set (butlast needed). frames t = TILE_FRAMES)
         \<and> (\<forall>t \<in> set needed. 0 < frames t \<and> frames t \<le> TILE_FRAMES)
         \<and> TILE_FRAMES = 1024
         \<and> (sampleRate p = 32000 \<and> hop_length p = 256 \<and> t0 p = 0 \<and> windowDuration p = 8
              \<longrightarrow> needed = [\<lparr>startFrame = 0, frames = 1000\<rparr>])"
proof -
  define fps where "fps = fl (sampleRate p / real_of_int (hop_length p))"
  define F0 where "F0 = \<lfloor>fl (t0 p * fps)\<rfloor>"
  define F1 where "F1 = F0 + max 1 \<lfloor>fl (windowDuration p * fps)\<rfloor> - 1"
  have ffw: "framesForWindow p = Some (F0, F1)"
    using assms(1) by (simp add: framesForWindow_def Let_def F0_def F1_def fps_def)
  have le: "F0 \<le> F1" using ffw by (rule framesForWindow_le)
  have needed: "fst (analyzeTiles cache fileId F0 F1 p) = neededTiles F0 F1"
    by (simp add: analyzeTiles_def Let_def)
  have ex: "neededTiles F0 F1 = [\<lparr>startFrame = 0, frames = 1000\<rparr>]"
    if "sampleRate p = 32000 \<and> hop_length p = 256 \<and> t0 p = 0 \<and> windowDuration p = 8"
  proof -
    have "fps = 125" using that by (simp add: fps_def)
    then have "F0 = 0" "F1 = 999" using that by (simp_all add: F0_def F1_def)
    then show ?thesis
      by (simp add: neededTiles_step neededTiles_done TILE_FRAMES_def)
  qed
  show ?thesis
  proof (intro exI conjI)
    show "framesForWindow p = Some (F0, F1)" by (rule ffw)
    show "fst (analyzeTiles cache fileId F0 F1 p) = fst (analyzeTiles cache fileId F0 F1 p)"
      by (rule refl)
    show "fps = fl (sampleRate p / real_of_int (hop_length p))" by (rule fps_def)
    show "F0 = \<lfloor>fl (t0 p * fps)\<rfloor>" by (rule F0_def)
    show "F1 = F0 + max 1 \<lfloor>fl (windowDuration p * fps)\<rfloor> - 1" by (rule F1_def)
    show "fst (analyzeTiles cache fileId F0 F1 p) \<noteq> []"
      unfolding needed using neededTiles_hd[OF le] by simp
    show "startFrame (hd (fst (analyzeTiles cache fileId F0 F1 p))) = F0"
      unfolding needed using neededTiles_hd[OF le] by simp
    show "concat (map tile_range (fst (analyzeTiles cache fileId F0 F1 p))) = [F0..F1]"
      unfolding needed by (rule neededTiles_cover)
    show "\<forall>t \<in> set (butlast (fst (analyzeTiles cache fileId F0 F1 p))). frames t = TILE_FRAMES"
      unfolding needed using neededTiles_widths[of F0 F1] by simp
    show "\<forall>t \<in> set (fst (analyzeTiles cache fileId F0 F1 p)). 0 < frames t \<and> frames t \<le> TILE_FRAMES"
      unfolding needed using neededTiles_widths[of F0 F1] by simp
    show "TILE_FRAMES = 1024" by (rule TILE_FRAMES_def)
    show "sampleRate p = 32000 \<and> hop_length p = 256 \<and> t0 p = 0 \<and> windowDuration p = 8
            \<longrightarrow> fst (analyzeTiles cache fileId F0 F1 p) = [\<lparr>startFrame = 0, frames = 1000\<rparr>]"
      unfolding needed using ex by blast
  qed
qed

theorem C5_frame_range_and_tiles_witness:
  "hop_length example_params \<noteq> 0
   \<and> framesForWindow example_params = Some (0, 999)
   \<and> fst (analyzeTiles Map.empty ''a.wav'' 0 999 example_params)
       = [\<lparr>startFrame = 0, frames = 1000\<rparr>]
   \<and> hop_length long_params \<noteq> 0
   \<and> \<bar>t0 long_params * fl (sampleRate long_params / real_of_int (hop_length long_params))\<bar>
       < 2 ^ 52
   \<and> framesForWindow long_params = Some (15999, 31997)
   \<and> concat (map tile_range (fst (analyzeTiles Map.empty ''a.wav'' 15999 31997 long_params)))
       = [15999..31997]"
proof -
  have h: "hop_length example_params \<noteq> 0" by (simp add: example_params_def)
  have h2: "\<bar>t0 example_params
              * fl (sampleRate example_params / real_of_int (hop_length example_params))\<bar> < 2 ^ 52"
    by (simp add: example_params_def)
  have h3: "\<bar>windowDuration example_params
              * fl (sampleRate example_params / real_of_int (hop_length example_params))\<bar> < 2 ^ 52"
    by (simp add: example_params_def)
  from C5_frame_range_and_tiles[OF h h2 h3, of Map.empty "''a.wav''"]
  obtain F0 F1 needed where
    a: "framesForWindow example_params = Some (F0, F1)" and
    b: "needed = fst (analyzeTiles Map.empty ''a.wav'' F0 F1 example_params)" and
    c: "sampleRate example_params = 32000 \<and> hop_length example_params = 256
        \<and> t0 example_params = 0 \<and> windowDuration example_params = 8
        \<longrightarrow> needed = [\<lparr>startFrame = 0, frames = 1000\<rparr>]"
    by blast
  have d: "framesForWindow example_params = Some (0, 999)"
    by (simp add: framesForWindow_def example_params_def)
  from a d have "F0 = 0" "F1 = 999" by simp_all
  with b c h d have ex: "hop_length example_params \<noteq> 0
      \<and> framesForWindow example_params = Some (0, 999)
      \<and> fst (analyzeTiles Map.empty ''a.wav'' 0 999 example_params)
          = [\<lparr>startFrame = 0, frames = 1000\<rparr>]"
    by (simp add: example_params_def)
  have l: "hop_length long_params \<noteq> 0" by (simp add: long_params_def)
  have l2: "\<bar>t0 long_params * fl (sampleRate long_params / real_of_int (hop_length long_params))\<bar>
            < 2 ^ 52"
    by (simp add: long_params_def fl_long_rate_reduced)
  have l3: "\<bar>windowDuration long_params
              * fl (sampleRate long_params / real_of_int (hop_length long_params))\<bar> < 2 ^ 52"
    by (simp add: long_params_def fl_long_rate_reduced)
  from C5_frame_range_and_tiles[OF l l2 l3, of Map.empty "''a.wav''"]
  obtain G0 G1 where
    a': "framesForWindow long_params = Some (G0, G1)" and
    b': "concat (map tile_range (fst (analyzeTiles Map.empty ''a.wav'' G0 G1 long_params)))
         = [G0..G1]"
    by blast
  from a' framesForWindow_long have g: "G0 = 15999" "G1 = 31997" by simp_all
  note b'' = b'[unfolded g]
  from ex l l2 framesForWindow_long b'' show ?thesis by blast
qed

end
